theory Spec2Isabelle
  imports
    Main
    "HOL-Library.Word"
    "HOL-Library.Char_ord"
    "HOL-Library.List_Lexorder"
begin

unbundle bit_operations_syntax

section \<open>Errors\<close>

text \<open>
  Go error values, as far as \<^verbatim>\<open>merged_fs.go\<close> builds and inspects them.
  \<open>ErrNotExist\<close>, \<open>ErrInvalid\<close> and \<open>EOF\<close> are the sentinels \<^verbatim>\<open>fs.ErrNotExist\<close>,
  \<^verbatim>\<open>fs.ErrInvalid\<close> and \<^verbatim>\<open>io.EOF\<close>. \<open>ErrorString s\<close> is an error that wraps nothing
  and prints as \<open>s\<close> (\<^verbatim>\<open>errors.New\<close>, \<^verbatim>\<open>fmt.Errorf\<close> without \<^verbatim>\<open>%w\<close>, or any such
  error of an underlying source). \<open>Errorf pre e post\<close> is \<^verbatim>\<open>fmt.Errorf\<close> with one
  \<^verbatim>\<open>%w\<close> verb: it wraps \<open>e\<close>, and \<open>pre\<close> and \<open>post\<close> are the formatted text before and
  after the verb. \<open>PathError op path e\<close> is \<^verbatim>\<open>&fs.PathError{op, path, e}\<close>.
\<close>

datatype error =
    ErrNotExist
  | ErrInvalid
  | EOF
  | ErrorString string
  | Errorf string error string
  | PathError string string error

text \<open>The \<^verbatim>\<open>Error()\<close> method: the text that the verb \<^verbatim>\<open>%s\<close> prints.\<close>

fun Error :: "error \<Rightarrow> string" where
  "Error ErrNotExist = ''file does not exist''"
| "Error ErrInvalid = ''invalid argument''"
| "Error EOF = ''EOF''"
| "Error (ErrorString s) = s"
| "Error (Errorf pre e post) = pre @ Error e @ post"
| "Error (PathError op path e) = op @ '' '' @ path @ '': '' @ Error e"

text \<open>\<^verbatim>\<open>errors.Is\<close>: the error itself or an error of its \<^verbatim>\<open>Unwrap\<close> chain is the target.\<close>

fun errors_Is :: "error \<Rightarrow> error \<Rightarrow> bool" where
  "errors_Is (Errorf pre e post) target = (Errorf pre e post = target \<or> errors_Is e target)"
| "errors_Is (PathError op path e) target = (PathError op path e = target \<or> errors_Is e target)"
| "errors_Is e target = (e = target)"

definition isBadPathError :: "error \<Rightarrow> bool" where
  "isBadPathError e \<longleftrightarrow> errors_Is e ErrNotExist \<or> errors_Is e ErrInvalid"

section \<open>File metadata, directory entries and handles\<close>

text \<open>
  An \<^verbatim>\<open>fs.FileInfo\<close> and an \<^verbatim>\<open>fs.DirEntry\<close> are interface values; each is modelled by
  what its methods return. The code reads a modification time only through
  \<^verbatim>\<open>ModTime().Unix()\<close>, so \<open>fi_ModTime\<close> is that \<^verbatim>\<open>int64\<close> count of seconds, held as a
  64-bit word and compared as a signed number. \<^verbatim>\<open>fs.FileMode\<close> is a \<^verbatim>\<open>uint32\<close>.
\<close>

record FileInfo =
  fi_Name :: string
  fi_Size :: "64 word"
  fi_Mode :: "32 word"
  fi_ModTime :: "64 word"
  fi_IsDir :: bool

record DirEntry =
  de_Name :: string
  de_IsDir :: bool
  de_Info :: "error + FileInfo"

text \<open>
  The struct \<^verbatim>\<open>MergedDirectory\<close>. \<open>modTime\<close> is a \<^verbatim>\<open>uint64\<close> and \<open>readOffset\<close> a Go
  \<^verbatim>\<open>int\<close>, taken as 64 bits wide; the conversions \<^verbatim>\<open>uint64(x)\<close> and \<^verbatim>\<open>int64(x)\<close> keep
  the 64 bits of a word as they are.
\<close>

record MergedDirectory =
  name :: string
  mode :: "32 word"
  modTime :: "64 word"
  entries :: "DirEntry list"
  readOffset :: "64 word"

text \<open>
  A \<^verbatim>\<open>*MergedDirectory\<close> used as an \<^verbatim>\<open>fs.FileInfo\<close> (methods \<^verbatim>\<open>Name\<close>, \<^verbatim>\<open>Size\<close>,
  \<^verbatim>\<open>Mode\<close>, \<^verbatim>\<open>ModTime\<close>, \<^verbatim>\<open>IsDir\<close>) and as an \<^verbatim>\<open>fs.DirEntry\<close> (methods \<^verbatim>\<open>Name\<close>,
  \<^verbatim>\<open>IsDir\<close>, \<^verbatim>\<open>Info\<close>).
\<close>

definition MergedDirectory_FileInfo :: "MergedDirectory \<Rightarrow> FileInfo" where
  "MergedDirectory_FileInfo d =
     \<lparr>fi_Name = name d, fi_Size = 0, fi_Mode = mode d, fi_ModTime = modTime d,
      fi_IsDir = True\<rparr>"

definition MergedDirectory_DirEntry :: "MergedDirectory \<Rightarrow> DirEntry" where
  "MergedDirectory_DirEntry d =
     \<lparr>de_Name = name d, de_IsDir = True, de_Info = Inr (MergedDirectory_FileInfo d)\<rparr>"

definition Close :: "MergedDirectory \<Rightarrow> MergedDirectory" where
  "Close d = d\<lparr>entries := [], readOffset := 0\<rparr>"

text \<open>
  \<^verbatim>\<open>MergedDirectory.ReadDir\<close>. The call returns a slice and an error, or panics when
  the slice expression \<^verbatim>\<open>d.entries[startEntry:endEntry]\<close> has bounds out of range.
  \<^verbatim>\<open>startEntry + n\<close> is an addition of two Go \<^verbatim>\<open>int\<close>s and wraps around.
\<close>

datatype ReadDir_result = Returned "DirEntry list" "error option" | Panicked

definition ReadDir :: "MergedDirectory \<Rightarrow> 64 word \<Rightarrow> ReadDir_result \<times> MergedDirectory" where
  "ReadDir d n =
     (if int (length (entries d)) \<le> sint (readOffset d) then
        (if sint n \<le> 0 then (Returned [] None, d) else (Returned [] (Some EOF), d))
      else
        let startEntry = readOffset d;
            endEntry = (if sint n \<le> 0 then of_nat (length (entries d)) else startEntry + n);
            endEntry = (if int (length (entries d)) < sint endEntry
                        then of_nat (length (entries d)) else endEntry)
        in if 0 \<le> sint startEntry \<and> sint startEntry \<le> sint endEntry
           then (Returned (take (nat (sint endEntry) - nat (sint startEntry))
                            (drop (nat (sint startEntry)) (entries d))) None,
                 d\<lparr>readOffset := endEntry\<rparr>)
           else (Panicked, d))"

text \<open>
  A file handle (\<^verbatim>\<open>fs.File\<close>) is either a handle of an underlying source or a
  \<^verbatim>\<open>*MergedDirectory\<close>. A handle of an underlying source is given by what \<^verbatim>\<open>Stat()\<close>
  returns, by what \<^verbatim>\<open>ReadDir(-1)\<close> returns when the handle is an \<^verbatim>\<open>fs.ReadDirFile\<close>
  (\<open>None\<close> when it is not), and by the bytes it reads.
\<close>

datatype File =
    SourceFile (sf_Stat: "error + FileInfo") (sf_ReadDir: "(error + DirEntry list) option")
      (sf_Data: string)
  | MergedDir MergedDirectory

fun Stat :: "File \<Rightarrow> error + FileInfo" where
  "Stat (SourceFile st rd bs) = st"
| "Stat (MergedDir d) = Inr (MergedDirectory_FileInfo d)"

text \<open>
  The type assertion \<^verbatim>\<open>f.(fs.ReadDirFile)\<close> followed by \<^verbatim>\<open>ReadDir(-1)\<close>. On a
  \<^verbatim>\<open>*MergedDirectory\<close> the call with \<open>-1\<close> panics only for a negative cursor, which
  \<open>ReadDir\<close> never stores (lemma \<open>ReadDir_all_no_panic\<close> below).
\<close>

fun ReadDirFile_all :: "File \<Rightarrow> (error + DirEntry list) option" where
  "ReadDirFile_all (SourceFile st rd bs) = rd"
| "ReadDirFile_all (MergedDir d) =
     (case fst (ReadDir d (- 1)) of
        Returned es None \<Rightarrow> Some (Inr es)
      | Returned es (Some e) \<Rightarrow> Some (Inl e)
      | Panicked \<Rightarrow> Some (Inl (ErrorString ''panic: slice bounds out of range'')))"

section \<open>Paths\<close>

text \<open>
  \<^verbatim>\<open>baseName\<close>: the scan runs from the last byte down to the first and stops at a
  slash; \<open>baseName_scan\<close> returns the index \<open>i\<close> at which the loop ends (\<open>-1\<close> when
  there is no slash).
\<close>

function baseName_scan :: "string \<Rightarrow> int \<Rightarrow> int" where
  "baseName_scan d i =
     (if 0 \<le> i then (if d ! nat i = CHR ''/'' then i else baseName_scan d (i - 1)) else i)"
  by pat_completeness auto
termination
  by (relation "measure (\<lambda>(d, i). nat (i + 1))") auto

declare baseName_scan.simps [simp del]

definition baseName :: "string \<Rightarrow> string" where
  "baseName path =
     (let i = int (length path) in
      if i \<le> 1 then path
      else drop (nat (baseName_scan path (i - 1) + 1)) path)"

text \<open>
  \<^verbatim>\<open>strings.Split(path, "/")\<close> and \<^verbatim>\<open>strings.Join(elems, "/")\<close> of the Go standard
  library.
\<close>

fun Split :: "string \<Rightarrow> string list" where
  "Split [] = [[]]"
| "Split (c # cs) =
     (if c = CHR ''/'' then [] # Split cs
      else (case Split cs of w # ws \<Rightarrow> (c # w) # ws | [] \<Rightarrow> [[c]]))"

fun Join :: "string list \<Rightarrow> string" where
  "Join [] = []"
| "Join [x] = x"
| "Join (x # y # ys) = x @ ''/'' @ Join (y # ys)"

text \<open>
  \<^verbatim>\<open>fs.ValidPath\<close> of the Go standard library: the name is valid UTF-8, and it is
  \<^verbatim>\<open>"."\<close> or a slash-separated sequence of elements none of which is empty, \<^verbatim>\<open>"."\<close>
  or \<^verbatim>\<open>".."\<close>. \<open>ValidString\<close> is \<^verbatim>\<open>utf8.ValidString\<close>.
\<close>

definition utf8_cont :: "char \<Rightarrow> bool" where
  "utf8_cont c \<longleftrightarrow> 0x80 \<le> (of_char c :: nat) \<and> (of_char c :: nat) \<le> 0xBF"

fun ValidString :: "string \<Rightarrow> bool" where
  "ValidString [] = True"
| "ValidString [c] = ((of_char c :: nat) < 0x80)"
| "ValidString [c, c1] =
     ((of_char c :: nat) < 0x80 \<and> ValidString [c1]
      \<or> 0xC2 \<le> (of_char c :: nat) \<and> (of_char c :: nat) \<le> 0xDF \<and> utf8_cont c1)"
| "ValidString [c, c1, c2] =
     (let b = (of_char c :: nat); b1 = (of_char c1 :: nat) in
      b < 0x80 \<and> ValidString [c1, c2]
      \<or> 0xC2 \<le> b \<and> b \<le> 0xDF \<and> utf8_cont c1 \<and> ValidString [c2]
      \<or> utf8_cont c2 \<and>
         (b = 0xE0 \<and> 0xA0 \<le> b1 \<and> b1 \<le> 0xBF
          \<or> (0xE1 \<le> b \<and> b \<le> 0xEC \<or> b = 0xEE \<or> b = 0xEF) \<and> utf8_cont c1
          \<or> b = 0xED \<and> 0x80 \<le> b1 \<and> b1 \<le> 0x9F))"
| "ValidString (c # c1 # c2 # c3 # cs) =
     (let b = (of_char c :: nat); b1 = (of_char c1 :: nat) in
      b < 0x80 \<and> ValidString (c1 # c2 # c3 # cs)
      \<or> 0xC2 \<le> b \<and> b \<le> 0xDF \<and> utf8_cont c1 \<and> ValidString (c2 # c3 # cs)
      \<or> utf8_cont c2 \<and> ValidString (c3 # cs) \<and>
         (b = 0xE0 \<and> 0xA0 \<le> b1 \<and> b1 \<le> 0xBF
          \<or> (0xE1 \<le> b \<and> b \<le> 0xEC \<or> b = 0xEE \<or> b = 0xEF) \<and> utf8_cont c1
          \<or> b = 0xED \<and> 0x80 \<le> b1 \<and> b1 \<le> 0x9F)
      \<or> utf8_cont c2 \<and> utf8_cont c3 \<and> ValidString cs \<and>
         (b = 0xF0 \<and> 0x90 \<le> b1 \<and> b1 \<le> 0xBF
          \<or> 0xF1 \<le> b \<and> b \<le> 0xF3 \<and> utf8_cont c1
          \<or> b = 0xF4 \<and> 0x80 \<le> b1 \<and> b1 \<le> 0x8F))"

definition ValidPath :: "string \<Rightarrow> bool" where
  "ValidPath nm \<longleftrightarrow>
     ValidString nm \<and>
     (nm = ''.'' \<or> (\<forall>elem \<in> set (Split nm). elem \<noteq> '''' \<and> elem \<noteq> ''.'' \<and> elem \<noteq> ''..''))"

section \<open>Merging two directory listings\<close>

text \<open>
  \<^verbatim>\<open>getMergedDirEntry\<close>: the entry that stands for a directory present in both
  listings. \<^verbatim>\<open>modTimeB > modTime\<close> compares two \<^verbatim>\<open>int64\<close> values.
\<close>

definition getMergedDirEntry :: "DirEntry \<Rightarrow> DirEntry \<Rightarrow> error + DirEntry" where
  "getMergedDirEntry a b =
     (case de_Info a of
        Inl e \<Rightarrow> Inl (Errorf ''Failed getting info for file A: '' e [])
      | Inr infoA \<Rightarrow>
          (case de_Info b of
             Inl e \<Rightarrow> Inl (Errorf ''Failed getting info for file B: '' e [])
           | Inr infoB \<Rightarrow>
               let modTime = fi_ModTime infoA;
                   modTimeB = fi_ModTime infoB;
                   modTime = (if modTime <s modTimeB then modTimeB else modTime)
               in Inr (MergedDirectory_DirEntry
                    \<lparr>name = de_Name a, mode = fi_Mode infoA, modTime = modTime,
                     entries = [], readOffset = 0\<rparr>)))"

text \<open>
  The two loops of \<^verbatim>\<open>mergeDirEntries\<close>. The state of each is the map
  \<^verbatim>\<open>nameConflicts\<close> and the slice \<^verbatim>\<open>toReturn\<close>.
\<close>

fun addEntriesA ::
  "DirEntry list \<Rightarrow> (string \<rightharpoonup> nat) \<Rightarrow> DirEntry list \<Rightarrow> error + (string \<rightharpoonup> nat) \<times> DirEntry list"
where
  "addEntriesA [] nameConflicts toReturn = Inr (nameConflicts, toReturn)"
| "addEntriesA (entry # rest) nameConflicts toReturn =
     (let nm = de_Name entry in
      case nameConflicts nm of
        Some existingIndex \<Rightarrow> Inl (ErrorString (''Duplicate name in dir A: '' @ nm))
      | None \<Rightarrow> addEntriesA rest (nameConflicts(nm \<mapsto> length toReturn)) (toReturn @ [entry]))"

fun addEntriesB ::
  "DirEntry list \<Rightarrow> (string \<rightharpoonup> nat) \<Rightarrow> DirEntry list \<Rightarrow> error + (string \<rightharpoonup> nat) \<times> DirEntry list"
where
  "addEntriesB [] nameConflicts toReturn = Inr (nameConflicts, toReturn)"
| "addEntriesB (entry # rest) nameConflicts toReturn =
     (let nm = de_Name entry in
      case nameConflicts nm of
        None \<Rightarrow> addEntriesB rest (nameConflicts(nm \<mapsto> length toReturn)) (toReturn @ [entry])
      | Some existingIndex \<Rightarrow>
          let existingEntry = toReturn ! existingIndex in
          if \<not> (de_IsDir existingEntry \<and> de_IsDir entry) then
            addEntriesB rest nameConflicts toReturn
          else
            (case getMergedDirEntry existingEntry entry of
               Inl e \<Rightarrow>
                 Inl (Errorf (''Failed getting merged DirEntry for '' @ de_Name entry @ '': '')
                        e [])
             | Inr mergedDirEntry \<Rightarrow>
                 addEntriesB rest nameConflicts (toReturn[existingIndex := mergedDirEntry])))"

text \<open>
  \<^verbatim>\<open>mergeDirEntries\<close>. \<^verbatim>\<open>sort.Sort\<close> orders the slice by \<^verbatim>\<open>Name()\<close> under Go's
  order on strings, the lexicographic order on bytes, which is the order of
  \<open>string\<close> here. \<^verbatim>\<open>sort.Sort\<close> is not stable, but the names of \<^verbatim>\<open>toReturn\<close> are
  distinct (the invariant \<open>indexed\<close> of the two loops, below), so that it has one sorted
  arrangement only.
\<close>

definition mergeDirEntries :: "File \<Rightarrow> File \<Rightarrow> error + DirEntry list" where
  "mergeDirEntries a b =
     (case ReadDirFile_all a of
        None \<Rightarrow> Inl (ErrorString ''File A isn't a directory'')
      | Some readA \<Rightarrow>
          (case ReadDirFile_all b of
             None \<Rightarrow> Inl (ErrorString ''File B isn't a directory'')
           | Some readB \<Rightarrow>
               (case readA of
                  Inl e \<Rightarrow> Inl (Errorf ''Failed reading entries from dir A: '' e [])
                | Inr entriesA \<Rightarrow>
                    (case readB of
                       Inl e \<Rightarrow> Inl (Errorf ''Failed reading entries from dir B: '' e [])
                     | Inr entriesB \<Rightarrow>
                         (case addEntriesA entriesA Map.empty [] of
                            Inl e \<Rightarrow> Inl e
                          | Inr (nameConflicts, toReturn) \<Rightarrow>
                              (case addEntriesB entriesB nameConflicts toReturn of
                                 Inl e \<Rightarrow> Inl e
                               | Inr (nameConflicts, toReturn) \<Rightarrow>
                                   Inr (sort_key de_Name toReturn)))))))"

definition newMergedDirectory :: "File \<Rightarrow> File \<Rightarrow> string \<Rightarrow> error + File" where
  "newMergedDirectory a b path =
     (case Stat a of
        Inl e \<Rightarrow> Inl (Errorf (''Couldn't stat dir '' @ path @ '' from FS A: '') e [])
      | Inr sA \<Rightarrow>
          (case Stat b of
             Inl e \<Rightarrow> Inl (Errorf (''Couldn't stat dir '' @ path @ '' from FS B: '') e [])
           | Inr sB \<Rightarrow>
               let modTime = fi_ModTime sA;
                   modTimeB = fi_ModTime sB;
                   modTime = (if modTime <s modTimeB then modTimeB else modTime)
               in (case mergeDirEntries a b of
                     Inl e \<Rightarrow> Inl (Errorf ''Error merging directory contents: '' e [])
                   | Inr mergedEntries \<Rightarrow>
                       Inr (MergedDir
                         \<lparr>name = baseName path, mode = fi_Mode sA, modTime = modTime,
                          entries = mergedEntries, readOffset = 0\<rparr>))))"

section \<open>The merged file system\<close>

text \<open>
  An \<^verbatim>\<open>fs.FS\<close> is an interface value: a state and a method \<^verbatim>\<open>Open\<close> on it. The
  method takes the state and a path, and returns the handle or the error together
  with the state after the call. A source whose content is a fixed table from paths to
  results is \<open>SourceFS\<close>: its state is the table itself, which \<^verbatim>\<open>Open\<close> leaves as it is.
\<close>

type_synonym 's FS = "'s \<Rightarrow> string \<Rightarrow> (error + File) \<times> 's"

definition SourceFS :: "(string \<Rightarrow> error + File) FS" where
  "SourceFS content path = (content path, content)"

text \<open>
  The struct \<^verbatim>\<open>MergedFS\<close>: the states of the two file systems and the map
  \<^verbatim>\<open>knownOKPrefixes\<close>. The \<^verbatim>\<open>Open\<close> methods of \<open>A\<close> and \<open>B\<close> are arguments of the
  functions below.
\<close>

record ('a, 'b) MergedFS =
  A :: 'a
  B :: 'b
  knownOKPrefixes :: "string \<rightharpoonup> bool"

definition NewMergedFS :: "'a \<Rightarrow> 'b \<Rightarrow> ('a, 'b) MergedFS" where
  "NewMergedFS a b = \<lparr>A = a, B = b, knownOKPrefixes = Map.empty\<rparr>"

text \<open>
  \<^verbatim>\<open>validatePathPrefix\<close>. The loop runs over the indices of \<^verbatim>\<open>components\<close>; reading
  \<^verbatim>\<open>m.knownOKPrefixes[p]\<close> gives \<^verbatim>\<open>false\<close> for a key that is absent.
\<close>

fun validatePathPrefix_loop ::
  "'a FS \<Rightarrow> string \<Rightarrow> string list \<Rightarrow> nat list \<Rightarrow> ('a, 'b) MergedFS \<Rightarrow>
   error option \<times> ('a, 'b) MergedFS"
where
  "validatePathPrefix_loop openA path components [] m = (None, m)"
| "validatePathPrefix_loop openA path components (i # rest) m =
     (let prefix = Join (take (i + 1) components) in
      if knownOKPrefixes m path = Some True then (None, m)
      else
        (case openA (A m) prefix of
           (Inl e, a') \<Rightarrow>
             if isBadPathError e then
               (None, m\<lparr>A := a',
                         knownOKPrefixes := (knownOKPrefixes m)(prefix \<mapsto> True, path \<mapsto> True)\<rparr>)
             else
               (Some (Errorf [] ErrNotExist
                        ('': Error opening '' @ path @ '' in A: '' @ Error e)),
                m\<lparr>A := a'\<rparr>)
         | (Inr f, a') \<Rightarrow>
             (case Stat f of
                Inl e \<Rightarrow>
                  (Some (ErrorString (''Couldn't stat file in A: '' @ Error e)), m\<lparr>A := a'\<rparr>)
              | Inr info \<Rightarrow>
                  if \<not> fi_IsDir info then
                    (Some (Errorf [] ErrNotExist ('': '' @ prefix @ '' is a file in A'')),
                     m\<lparr>A := a'\<rparr>)
                  else
                    validatePathPrefix_loop openA path components rest
                      (m\<lparr>A := a',
                         knownOKPrefixes := (knownOKPrefixes m)(prefix \<mapsto> True)\<rparr>))))"

definition validatePathPrefix ::
  "'a FS \<Rightarrow> ('a, 'b) MergedFS \<Rightarrow> string \<Rightarrow> error option \<times> ('a, 'b) MergedFS"
where
  "validatePathPrefix openA m path =
     (if knownOKPrefixes m path = Some True then (None, m)
      else
        let components = Split path in
        validatePathPrefix_loop openA path components [0..<length components] m)"

text \<open>\<^verbatim>\<open>MergedFS.Open\<close>.\<close>

definition Open :: "'a FS \<Rightarrow> 'b FS \<Rightarrow> ('a, 'b) MergedFS FS" where
  "Open openA openB m path =
     (if \<not> ValidPath path then (Inl (PathError ''open'' ''path'' ErrInvalid), m)
      else
        (case openA (A m) path of
           (Inr fA, a') \<Rightarrow>
             (case Stat fA of
                Inl e \<Rightarrow>
                  (Inl (Errorf (''Couldn't stat '' @ path @ '' in FS A: '') e []), m\<lparr>A := a'\<rparr>)
              | Inr fileInfo \<Rightarrow>
                  if \<not> fi_IsDir fileInfo then (Inr fA, m\<lparr>A := a'\<rparr>)
                  else
                    (case openB (B m) path of
                       (Inl e, b') \<Rightarrow>
                         if isBadPathError e then (Inr fA, m\<lparr>A := a', B := b'\<rparr>)
                         else
                           (Inl (Errorf (''Couldn't open '' @ path @ '' in FS B: '') e []),
                            m\<lparr>A := a', B := b'\<rparr>)
                     | (Inr fB, b') \<Rightarrow>
                         (case Stat fB of
                            Inl e \<Rightarrow>
                              (Inl (Errorf (''Couldn't stat '' @ path @ '' in FS B: '') e []),
                               m\<lparr>A := a', B := b'\<rparr>)
                          | Inr fileInfo \<Rightarrow>
                              if \<not> fi_IsDir fileInfo then (Inr fA, m\<lparr>A := a', B := b'\<rparr>)
                              else (newMergedDirectory fA fB path, m\<lparr>A := a', B := b'\<rparr>))))
         | (Inl e, a') \<Rightarrow>
             if \<not> isBadPathError e then
               (Inl (Errorf (''Couldn't open '' @ path @ '' in FS A: '') e []), m\<lparr>A := a'\<rparr>)
             else
               (case validatePathPrefix openA (m\<lparr>A := a'\<rparr>) path of
                  (Some e, m') \<Rightarrow> (Inl (PathError ''open'' path e), m')
                | (None, m') \<Rightarrow>
                    (case openB (B m') path of
                       (r, b') \<Rightarrow> (r, m'\<lparr>B := b'\<rparr>)))))"

section \<open>Two example sources\<close>

text \<open>
  The scenario of the specification: source \<open>exampleA\<close> holds the file \<^verbatim>\<open>a\<close> and the
  directory \<^verbatim>\<open>b\<close> with the file \<^verbatim>\<open>b/x\<close>; source \<open>exampleB\<close> holds the directory \<^verbatim>\<open>a\<close>
  with the file \<^verbatim>\<open>a/y\<close> and the directory \<^verbatim>\<open>b\<close> with the file \<^verbatim>\<open>b/z\<close>. For the error
  paths, opening \<^verbatim>\<open>e\<close> in \<open>exampleA\<close> fails with an input/output error and the handle
  of \<^verbatim>\<open>s\<close> cannot be statted, while \<open>exampleB\<close> holds the files \<^verbatim>\<open>e/f\<close> and \<^verbatim>\<open>s/f\<close>.
\<close>

definition regularFile :: "string \<Rightarrow> string \<Rightarrow> File" where
  "regularFile nm bs =
     SourceFile
       (Inr \<lparr>fi_Name = nm, fi_Size = of_nat (length bs), fi_Mode = 0x1A4, fi_ModTime = 100,
             fi_IsDir = False\<rparr>)
       None bs"

definition directoryInfo :: "string \<Rightarrow> 32 word \<Rightarrow> 64 word \<Rightarrow> FileInfo" where
  "directoryInfo nm perm t =
     \<lparr>fi_Name = nm, fi_Size = 0, fi_Mode = perm, fi_ModTime = t, fi_IsDir = True\<rparr>"

definition directory :: "string \<Rightarrow> 32 word \<Rightarrow> 64 word \<Rightarrow> DirEntry list \<Rightarrow> File" where
  "directory nm perm t es = SourceFile (Inr (directoryInfo nm perm t)) (Some (Inr es)) []"

definition fileEntry :: "string \<Rightarrow> nat \<Rightarrow> DirEntry" where
  "fileEntry nm sz =
     \<lparr>de_Name = nm, de_IsDir = False,
      de_Info = Inr \<lparr>fi_Name = nm, fi_Size = of_nat sz, fi_Mode = 0x1A4, fi_ModTime = 100,
                     fi_IsDir = False\<rparr>\<rparr>"

definition directoryEntry :: "string \<Rightarrow> 32 word \<Rightarrow> 64 word \<Rightarrow> DirEntry" where
  "directoryEntry nm perm t =
     \<lparr>de_Name = nm, de_IsDir = True, de_Info = Inr (directoryInfo nm perm t)\<rparr>"

definition notFound :: "string \<Rightarrow> error + File" where
  "notFound p = Inl (PathError ''open'' p ErrNotExist)"

definition exampleA :: "string \<Rightarrow> error + File" where
  "exampleA p =
     (if p = ''.'' then
        Inr (directory ''.'' 0x800001ED 5 [fileEntry ''a'' 1, directoryEntry ''b'' 0x800001ED 7])
      else if p = ''a'' then Inr (regularFile ''a'' ''A'')
      else if p = ''b'' then Inr (directory ''b'' 0x800001ED 7 [fileEntry ''x'' 1])
      else if p = ''b/x'' then Inr (regularFile ''x'' ''X'')
      else if p = ''e'' then Inl (PathError ''open'' ''e'' (ErrorString ''input/output error''))
      else if p = ''s'' then Inr (SourceFile (Inl (ErrorString ''stat failed'')) None [])
      else notFound p)"

definition exampleB :: "string \<Rightarrow> error + File" where
  "exampleB p =
     (if p = ''.'' then
        Inr (directory ''.'' 0x800001C0 6
               [directoryEntry ''a'' 0x800001C0 3, directoryEntry ''b'' 0x800001C0 9,
                directoryEntry ''e'' 0x800001C0 4, directoryEntry ''s'' 0x800001C0 4])
      else if p = ''a'' then Inr (directory ''a'' 0x800001C0 3 [fileEntry ''y'' 1])
      else if p = ''a/y'' then Inr (regularFile ''y'' ''Y'')
      else if p = ''b'' then Inr (directory ''b'' 0x800001C0 9 [fileEntry ''z'' 1])
      else if p = ''b/z'' then Inr (regularFile ''z'' ''Z'')
      else if p = ''e'' then Inr (directory ''e'' 0x800001C0 4 [fileEntry ''f'' 1])
      else if p = ''e/f'' then Inr (regularFile ''f'' ''F'')
      else if p = ''s'' then Inr (directory ''s'' 0x800001C0 4 [fileEntry ''f'' 1])
      else if p = ''s/f'' then Inr (regularFile ''f'' ''G'')
      else notFound p)"

text \<open>
  \<open>exampleA\<close> after a change of its content: \<^verbatim>\<open>b\<close> has become a regular file, and
  \<^verbatim>\<open>b/x\<close> is gone.
\<close>

definition exampleA_changed :: "string \<Rightarrow> error + File" where
  "exampleA_changed p =
     (if p = ''.'' then
        Inr (directory ''.'' 0x800001ED 8 [fileEntry ''a'' 1, fileEntry ''b'' 1])
      else if p = ''a'' then Inr (regularFile ''a'' ''A'')
      else if p = ''b'' then Inr (regularFile ''b'' ''B'')
      else notFound p)"


text \<open>A directory handle with three entries, for the paginated listing.\<close>

definition exampleDir :: MergedDirectory where
  "exampleDir =
     \<lparr>name = ''d'', mode = 0x800001ED, modTime = 7,
      entries = [fileEntry ''p'' 1, fileEntry ''q'' 2, fileEntry ''r'' 3], readOffset = 0\<rparr>"

text \<open>
  A listing of a secondary source in which the name \<^verbatim>\<open>d\<close> occurs three times: as a
  directory, as a file, and as a directory again.
\<close>

definition duplicateListing :: "DirEntry list" where
  "duplicateListing =
     [directoryEntry ''d'' 0x800001C0 3, fileEntry ''d'' 1, directoryEntry ''d'' 0x800001FF 9]"

section \<open>The toggle for the caching of prefixes\<close>

text \<open>
  Modelled from the spec: the caching-enabled flag of a composition node, the toggle
  \<^verbatim>\<open>UsePathCaching\<close> that the tests call, and what \<^verbatim>\<open>Open\<close> does while caching is disabled
  are missing from \<^verbatim>\<open>merged_fs.go\<close>, whose struct \<^verbatim>\<open>MergedFS\<close> has no flag. The
  specification says: a node holds a primary source, a secondary source, the cache and
  a caching-enabled flag; when caching is disabled, the cache is bypassed and not
  written; disabling caching clears all existing entries immediately; re-enabling starts
  memoization fresh. A node with the flag is the node of the code together with the
  flag; the tests find prefixes cached on a node that was never toggled, so that a new
  node has caching enabled.
\<close>

record ('a, 'b) MergedFS_caching =
  merged :: "('a, 'b) MergedFS"
  cachingEnabled :: bool

definition NewMergedFS_caching :: "'a \<Rightarrow> 'b \<Rightarrow> ('a, 'b) MergedFS_caching" where
  "NewMergedFS_caching a b = \<lparr>merged = NewMergedFS a b, cachingEnabled = True\<rparr>"

text \<open>
  Modelled from the spec: \<^verbatim>\<open>UsePathCaching(enabled)\<close>, missing from the code. Disabling
  clears the cache; enabling sets the flag only.
\<close>

definition UsePathCaching :: "('a, 'b) MergedFS_caching \<Rightarrow> bool \<Rightarrow> ('a, 'b) MergedFS_caching" where
  "UsePathCaching t enabled =
     (if enabled then t\<lparr>cachingEnabled := True\<rparr>
      else \<lparr>merged = (merged t)\<lparr>knownOKPrefixes := Map.empty\<rparr>, cachingEnabled = False\<rparr>)"

text \<open>
  Modelled from the spec: \<^verbatim>\<open>Open\<close> on a node with the flag, missing from the code. With
  caching enabled it is the \<^verbatim>\<open>Open\<close> of the code. With caching disabled the cache is
  bypassed (the call sees no entry) and not written (the map is after the call what it
  was before).
\<close>

definition Open_caching :: "'a FS \<Rightarrow> 'b FS \<Rightarrow> ('a, 'b) MergedFS_caching FS" where
  "Open_caching openA openB t path =
     (if cachingEnabled t then
        (case Open openA openB (merged t) path of (r, m') \<Rightarrow> (r, t\<lparr>merged := m'\<rparr>))
      else
        (case Open openA openB ((merged t)\<lparr>knownOKPrefixes := Map.empty\<rparr>) path of
           (r, m') \<Rightarrow> (r, t\<lparr>merged := m'\<lparr>knownOKPrefixes := knownOKPrefixes (merged t)\<rparr>\<rparr>)))"

text \<open>
  A sequence of calls on one node, each an \<^verbatim>\<open>Open\<close> or a \<^verbatim>\<open>UsePathCaching\<close>: the results
  of the \<^verbatim>\<open>Open\<close> calls in their order, and the last state. \<open>opened\<close> lists the paths
  that the sequence opens.
\<close>

datatype call = CallOpen string | CallUsePathCaching bool

fun calls ::
  "'a FS \<Rightarrow> 'b FS \<Rightarrow> ('a, 'b) MergedFS_caching \<Rightarrow> call list \<Rightarrow>
   (error + File) list \<times> ('a, 'b) MergedFS_caching"
where
  "calls openA openB t [] = ([], t)"
| "calls openA openB t (CallOpen p # cs) =
     (case Open_caching openA openB t p of
        (r, t') \<Rightarrow> (case calls openA openB t' cs of (rs, t'') \<Rightarrow> (r # rs, t'')))"
| "calls openA openB t (CallUsePathCaching enabled # cs) =
     calls openA openB (UsePathCaching t enabled) cs"

fun opened :: "call list \<Rightarrow> string list" where
  "opened [] = []"
| "opened (CallOpen p # cs) = p # opened cs"
| "opened (CallUsePathCaching enabled # cs) = opened cs"

section \<open>Invariants\<close>

text \<open>
  The invariant of the two loops of \<^verbatim>\<open>mergeDirEntries\<close>: the names of \<^verbatim>\<open>toReturn\<close>
  are distinct, and \<^verbatim>\<open>nameConflicts\<close> maps exactly these names, each to the index of
  its entry.
\<close>

definition indexed :: "(string \<rightharpoonup> nat) \<Rightarrow> DirEntry list \<Rightarrow> bool" where
  "indexed nameConflicts toReturn \<longleftrightarrow>
     distinct (map de_Name toReturn) \<and>
     dom nameConflicts = de_Name ` set toReturn \<and>
     (\<forall>nm i. nameConflicts nm = Some i \<longrightarrow> i < length toReturn \<and> de_Name (toReturn ! i) = nm)"

text \<open>
  What the second loop of \<^verbatim>\<open>mergeDirEntries\<close> makes of the entry \<open>cur\<close> of \<^verbatim>\<open>toReturn\<close>
  when it meets, one after the other, the entries \<open>bs\<close> of the same name: an entry is
  dropped unless it and the current one are directories, in which case
  \<^verbatim>\<open>getMergedDirEntry\<close> of the two replaces the current one.
\<close>

fun reconcile :: "DirEntry \<Rightarrow> DirEntry list \<Rightarrow> error + DirEntry" where
  "reconcile cur [] = Inr cur"
| "reconcile cur (b # bs) =
     (if de_IsDir cur \<and> de_IsDir b then
        (case getMergedDirEntry cur b of Inl e \<Rightarrow> Inl e | Inr y \<Rightarrow> reconcile y bs)
      else reconcile cur bs)"

section \<open>Notions used in the statements\<close>

text \<open>
  The prefixes of a path, in the order in which \<^verbatim>\<open>validatePathPrefix\<close> visits them; the
  last one is the path itself, the others are its proper ancestors.
\<close>

definition prefixes :: "string \<Rightarrow> string list" where
  "prefixes path = map (\<lambda>i. Join (take (i + 1) (Split path))) [0..<length (Split path)]"

definition ancestors :: "string \<Rightarrow> string list" where
  "ancestors path = butlast (prefixes path)"

text \<open>
  What a source with content \<open>f\<close> holds at a path: a directory (the path opens, the
  handle can be statted and reports a directory), a non-directory, or nothing (the
  path fails to open with an error of the not-found class).
\<close>

definition isDirIn :: "(string \<Rightarrow> error + File) \<Rightarrow> string \<Rightarrow> bool" where
  "isDirIn f q =
     (case f q of
        Inl e \<Rightarrow> False
      | Inr h \<Rightarrow> (case Stat h of Inl e \<Rightarrow> False | Inr info \<Rightarrow> fi_IsDir info))"

definition isFileIn :: "(string \<Rightarrow> error + File) \<Rightarrow> string \<Rightarrow> bool" where
  "isFileIn f q =
     (case f q of
        Inl e \<Rightarrow> False
      | Inr h \<Rightarrow> (case Stat h of Inl e \<Rightarrow> False | Inr info \<Rightarrow> \<not> fi_IsDir info))"

definition isAbsentIn :: "(string \<Rightarrow> error + File) \<Rightarrow> string \<Rightarrow> bool" where
  "isAbsentIn f q = (case f q of Inl e \<Rightarrow> isBadPathError e | Inr h \<Rightarrow> False)"

text \<open>
  A file system with \<^verbatim>\<open>Open\<close> method \<open>opn\<close> serves the content \<open>f\<close> on the states that
  satisfy \<open>I\<close>: on such a state every call answers as \<open>f\<close> says, and leaves a state that
  satisfies \<open>I\<close> again. A source with a fixed content serves it on every state; a
  composition node serves the merged view of what its two sources serve, on the states
  given by \<open>node_ok\<close> (theorem \<open>Open_serves\<close> below).
\<close>

definition serves :: "'s FS \<Rightarrow> ('s \<Rightarrow> bool) \<Rightarrow> (string \<Rightarrow> error + File) \<Rightarrow> bool" where
  "serves opn I f \<longleftrightarrow> (\<forall>s p. I s \<longrightarrow> fst (opn s p) = f p \<and> I (snd (opn s p)))"

text \<open>
  The answers of a node that has just been built over two sources with contents \<open>fA\<close>
  and \<open>fB\<close>.
\<close>

definition fresh_view :: "(string \<Rightarrow> error + File) \<Rightarrow> (string \<Rightarrow> error + File) \<Rightarrow> string \<Rightarrow> error + File" where
  "fresh_view fA fB p = fst (Open SourceFS SourceFS (NewMergedFS fA fB) p)"

text \<open>
  The map of prefixes is sound for the content \<open>fA\<close> of the primary source when every
  path it marks passes the check of \<^verbatim>\<open>validatePathPrefix\<close> on a node just built over
  \<open>fA\<close>.
\<close>

definition cache_sound :: "(string \<Rightarrow> error + File) \<Rightarrow> (string \<rightharpoonup> bool) \<Rightarrow> bool" where
  "cache_sound fA known \<longleftrightarrow>
     (\<forall>q. known q = Some True \<longrightarrow>
        fst (validatePathPrefix SourceFS (NewMergedFS fA ()) q) = None)"

definition node_ok ::
  "('a \<Rightarrow> bool) \<Rightarrow> ('b \<Rightarrow> bool) \<Rightarrow> (string \<Rightarrow> error + File) \<Rightarrow> ('a, 'b) MergedFS \<Rightarrow> bool"
where
  "node_ok IA IB fA m \<longleftrightarrow> IA (A m) \<and> IB (B m) \<and> cache_sound fA (knownOKPrefixes m)"

text \<open>A sequence of \<^verbatim>\<open>Open\<close> calls on one file system: the results, and the last state.\<close>

fun Opens :: "'s FS \<Rightarrow> 's \<Rightarrow> string list \<Rightarrow> (error + File) list \<times> 's" where
  "Opens opn s [] = ([], s)"
| "Opens opn s (p # ps) =
     (case opn s p of (r, s') \<Rightarrow> (case Opens opn s' ps of (rs, s'') \<Rightarrow> (r # rs, s'')))"

section \<open>The paginated listing of a merged directory\<close>

lemma sint_of_nat64: "n < 2 ^ 63 \<Longrightarrow> sint (of_nat n :: 64 word) = int n"
  by (simp add: signed_of_nat signed_take_bit_int_eq_self)

lemma sint_add64:
  "- (2 ^ 63) \<le> sint (a :: 64 word) + sint b \<Longrightarrow> sint a + sint b < 2 ^ 63 \<Longrightarrow>
   sint (a + b) = sint a + sint b"
  by (simp add: sint_word_add signed_take_bit_int_eq_self)

text \<open>
  With the cursor at or past the end, a call with \<open>n \<le> 0\<close> returns an empty slice and
  no error, and a call with \<open>n > 0\<close> returns \<^verbatim>\<open>io.EOF\<close>.
\<close>

lemma ReadDir_at_end:
  "int (length (entries d)) \<le> sint (readOffset d) \<Longrightarrow>
   ReadDir d n = (Returned [] (if sint n \<le> 0 then None else Some EOF), d)"
  by (simp add: ReadDir_def)

text \<open>With entries left, a call with \<open>n \<le> 0\<close> returns all of them.\<close>

lemma ReadDir_rest:
  assumes "0 \<le> sint (readOffset d)" "sint (readOffset d) < int (length (entries d))"
    "length (entries d) < 2 ^ 63" "sint n \<le> 0"
  shows "ReadDir d n = (Returned (drop (nat (sint (readOffset d))) (entries d)) None,
           d\<lparr>readOffset := of_nat (length (entries d))\<rparr>)"
  using assms by (simp add: ReadDir_def Let_def sint_of_nat64)

text \<open>
  With entries left, a call with \<open>n > 0\<close> returns the next \<open>min n (|E| - c)\<close> entries and
  moves the cursor by as many, as long as \<^verbatim>\<open>startEntry + n\<close> does not overflow.
\<close>

lemma ReadDir_some:
  assumes c0: "0 \<le> sint (readOffset d)" and cl: "sint (readOffset d) < int (length (entries d))"
    and len: "length (entries d) < 2 ^ 63" and n0: "0 < sint n"
    and nov: "sint (readOffset d) + sint n < 2 ^ 63"
  shows "\<exists>c'. ReadDir d n =
    (Returned (take (min (nat (sint n)) (length (entries d) - nat (sint (readOffset d))))
        (drop (nat (sint (readOffset d))) (entries d))) None, d\<lparr>readOffset := c'\<rparr>) \<and>
     sint c' = sint (readOffset d) +
       int (min (nat (sint n)) (length (entries d) - nat (sint (readOffset d))))"
proof -
  let ?c = "readOffset d" and ?L = "length (entries d)"
  have s: "sint (?c + n) = sint ?c + sint n"
    using c0 n0 nov by (intro sint_add64) auto
  show ?thesis
  proof (cases "int ?L < sint ?c + sint n")
    case True
    then have m: "min (nat (sint n)) (?L - nat (sint ?c)) = ?L - nat (sint ?c)"
      using c0 cl n0 by auto
    have "ReadDir d n =
        (Returned (take (?L - nat (sint ?c)) (drop (nat (sint ?c)) (entries d))) None,
         d\<lparr>readOffset := of_nat ?L\<rparr>)"
      using True c0 cl len n0 s by (simp add: ReadDir_def Let_def sint_of_nat64)
    moreover have "sint (of_nat ?L :: 64 word) = sint ?c + int (?L - nat (sint ?c))"
      using c0 cl len by (simp add: sint_of_nat64)
    ultimately show ?thesis unfolding m by blast
  next
    case False
    then have m: "min (nat (sint n)) (?L - nat (sint ?c)) = nat (sint n)"
      using c0 cl n0 by auto
    have k: "nat (sint ?c + sint n) - nat (sint ?c) = nat (sint n)"
      using c0 n0 by auto
    have "ReadDir d n =
        (Returned (take (nat (sint n)) (drop (nat (sint ?c)) (entries d))) None,
         d\<lparr>readOffset := ?c + n\<rparr>)"
      using False c0 cl len n0 s k by (simp add: ReadDir_def Let_def sint_of_nat64)
    moreover have "sint (?c + n) = sint ?c + int (nat (sint n))"
      using s n0 by simp
    ultimately show ?thesis unfolding m by blast
  qed
qed

text \<open>The cursor never becomes negative, and a listing with \<open>-1\<close> never panics.\<close>

lemma ReadDir_cursor_nonneg:
  "0 \<le> sint (readOffset d) \<Longrightarrow> length (entries d) < 2 ^ 63 \<Longrightarrow>
   0 \<le> sint (readOffset (snd (ReadDir d n)))"
  by (auto simp add: ReadDir_def Let_def sint_of_nat64)

lemma ReadDir_all_no_panic:
  "0 \<le> sint (readOffset d) \<Longrightarrow> length (entries d) < 2 ^ 63 \<Longrightarrow>
   fst (ReadDir d (- 1)) \<noteq> Panicked"
  by (simp add: ReadDir_def Let_def sint_of_nat64)

lemma ReadDirFile_all_fresh:
  "readOffset d = 0 \<Longrightarrow> length (entries d) < 2 ^ 63 \<Longrightarrow>
   ReadDirFile_all (MergedDir d) = Some (Inr (entries d))"
  by (auto simp add: ReadDir_def Let_def sint_of_nat64)

text \<open>
  Claim C9. A call \<^verbatim>\<open>ReadDir(n)\<close> with \<open>n > 0\<close> is to return the next \<open>min n (|E| - c)\<close>
  entries. On the three-entry directory \<open>exampleDir\<close>, after one call \<^verbatim>\<open>ReadDir(1)\<close>
  has moved the cursor to 1, the call \<^verbatim>\<open>ReadDir(9223372036854775807)\<close> does not
  return the two entries left: \<^verbatim>\<open>startEntry + n\<close> wraps around to a negative number,
  the test \<^verbatim>\<open>endEntry > len(d.entries)\<close> fails, and the slice expression panics.
\<close>

theorem ReadDir_overflow_panics:
  "ReadDir exampleDir 1 = (Returned [fileEntry ''p'' 1] None, exampleDir\<lparr>readOffset := 1\<rparr>) \<and>
   ReadDir (snd (ReadDir exampleDir 1)) 0x7FFFFFFFFFFFFFFF =
     (Panicked, exampleDir\<lparr>readOffset := 1\<rparr>)"
  by (simp add: ReadDir_def exampleDir_def)

section \<open>Opening a path that the primary source holds as a file\<close>

text \<open>
  Claim C1. For a valid path \<open>P\<close>, when \<open>A\<close> opens \<open>P\<close> and reports a non-directory,
  \<^verbatim>\<open>Open\<close> returns the handle of \<open>A\<close>. The result holds for every \<open>B\<close> and every
  \<^verbatim>\<open>Open\<close> method of \<open>B\<close>; the state of \<open>B\<close> and the map of prefixes are as before the
  call, so that \<open>B\<close> is not consulted.
\<close>

theorem Open_file_in_A:
  assumes "ValidPath P"
    and "openA (A m) P = (Inr fA, a')"
    and "Stat fA = Inr info"
    and "\<not> fi_IsDir info"
  shows "Open openA openB m P = (Inr fA, m\<lparr>A := a'\<rparr>)"
  using assms by (simp add: Open_def)

theorem Open_file_in_A_witness:
  "ValidPath ''a'' \<and>
   SourceFS exampleA ''a'' = (Inr (regularFile ''a'' ''A''), exampleA) \<and>
   \<not> fi_IsDir \<lparr>fi_Name = ''a'', fi_Size = 1, fi_Mode = 0x1A4, fi_ModTime = 100, fi_IsDir = False\<rparr> \<and>
   exampleB ''a'' = Inr (directory ''a'' 0x800001C0 3 [fileEntry ''y'' 1]) \<and>
   Open SourceFS SourceFS (NewMergedFS exampleA exampleB) ''a'' =
     (Inr (regularFile ''a'' ''A''), NewMergedFS exampleA exampleB)"
proof -
  have v: "ValidPath ''a''"
    by (simp add: ValidPath_def)
  have o: "SourceFS (A (NewMergedFS exampleA exampleB)) ''a'' = (Inr (regularFile ''a'' ''A''), exampleA)"
    by (simp add: SourceFS_def NewMergedFS_def exampleA_def)
  have s: "Stat (regularFile ''a'' ''A'') =
      Inr \<lparr>fi_Name = ''a'', fi_Size = 1, fi_Mode = 0x1A4, fi_ModTime = 100, fi_IsDir = False\<rparr>"
    by (simp add: regularFile_def)
  have d: "\<not> fi_IsDir \<lparr>fi_Name = ''a'', fi_Size = 1, fi_Mode = 0x1A4, fi_ModTime = 100, fi_IsDir = False\<rparr>"
    by simp
  show ?thesis
    using Open_file_in_A [where openA = SourceFS and openB = SourceFS
        and m = "NewMergedFS exampleA exampleB", OF v o s d] v
    by (simp add: SourceFS_def NewMergedFS_def exampleA_def exampleB_def)
qed

section \<open>The merge of two listings\<close>

text \<open>Facts about the invariant \<open>indexed\<close> and about the two loops.\<close>

lemma indexed_empty: "indexed Map.empty []"
  by (simp add: indexed_def)

lemma indexed_None: "indexed nc tr \<Longrightarrow> nc nm = None \<longleftrightarrow> nm \<notin> de_Name ` set tr"
  unfolding indexed_def by (metis domIff)

lemma indexed_Some: "indexed nc tr \<Longrightarrow> nc nm = Some i \<Longrightarrow> i < length tr \<and> de_Name (tr ! i) = nm"
  by (simp add: indexed_def)

lemma indexed_append:
  assumes "indexed nc tr" "nc (de_Name e) = None"
  shows "indexed (nc(de_Name e \<mapsto> length tr)) (tr @ [e])"
proof -
  have n: "de_Name e \<notin> de_Name ` set tr" using assms indexed_None by blast
  have 1: "distinct (map de_Name (tr @ [e]))" using assms(1) n by (simp add: indexed_def)
  have 2: "dom (nc(de_Name e \<mapsto> length tr)) = de_Name ` set (tr @ [e])"
    using assms(1) by (auto simp: indexed_def)
  have 3: "i < length (tr @ [e]) \<and> de_Name ((tr @ [e]) ! i) = nm"
    if "(nc(de_Name e \<mapsto> length tr)) nm = Some i" for nm i
  proof (cases "nm = de_Name e")
    case True
    with that show ?thesis by (auto simp: nth_append)
  next
    case False
    with that have "nc nm = Some i" by simp
    then have "i < length tr \<and> de_Name (tr ! i) = nm" using assms(1) indexed_Some by blast
    then show ?thesis by (simp add: nth_append)
  qed
  show ?thesis unfolding indexed_def using 1 2 3 by blast
qed

lemma indexed_update:
  assumes "indexed nc tr" "nc nm = Some i" "de_Name y = nm"
  shows "indexed nc (tr[i := y])"
proof -
  have i: "i < length tr" "de_Name (tr ! i) = nm" using assms indexed_Some by blast+
  have m: "map de_Name (tr[i := y]) = map de_Name tr"
    using i assms(3) by (simp add: map_update list_update_same_conv)
  then have s: "de_Name ` set (tr[i := y]) = de_Name ` set tr"
    by (metis set_map)
  have 3: "j < length (tr[i := y]) \<and> de_Name (tr[i := y] ! j) = nm'" if "nc nm' = Some j" for nm' j
  proof -
    from that have "j < length tr \<and> de_Name (tr ! j) = nm'" using assms(1) indexed_Some by blast
    then show ?thesis using m by (metis length_map nth_map)
  qed
  show ?thesis unfolding indexed_def using assms(1) m s 3 by (simp add: indexed_def)
qed

lemma getMergedDirEntry_Inr:
  "getMergedDirEntry a b = Inr y \<longleftrightarrow>
   (\<exists>ia ib. de_Info a = Inr ia \<and> de_Info b = Inr ib \<and>
      y = \<lparr>de_Name = de_Name a, de_IsDir = True,
           de_Info = Inr \<lparr>fi_Name = de_Name a, fi_Size = 0, fi_Mode = fi_Mode ia,
             fi_ModTime = (if fi_ModTime ia <s fi_ModTime ib then fi_ModTime ib else fi_ModTime ia),
             fi_IsDir = True\<rparr>\<rparr>)"
  by (auto simp: getMergedDirEntry_def MergedDirectory_DirEntry_def MergedDirectory_FileInfo_def Let_def
      split: sum.splits)

lemma getMergedDirEntry_name: "getMergedDirEntry a b = Inr y \<Longrightarrow> de_Name y = de_Name a"
  by (auto simp: getMergedDirEntry_Inr)

lemma addEntriesA_indexed:
  "indexed nc tr \<Longrightarrow> addEntriesA es nc tr = Inr (nc', tr') \<Longrightarrow>
   indexed nc' tr' \<and> tr' = tr @ es"
proof (induction es arbitrary: nc tr)
  case Nil
  then show ?case by simp
next
  case (Cons e es)
  from Cons.prems(2) have none: "nc (de_Name e) = None"
    by (auto simp: Let_def split: option.splits)
  with Cons.prems(2) have r: "addEntriesA es (nc(de_Name e \<mapsto> length tr)) (tr @ [e]) = Inr (nc', tr')"
    by (simp add: Let_def)
  from Cons.IH [OF indexed_append [OF Cons.prems(1) none] r]
  show ?case by auto
qed

lemma addEntriesA_Inl:
  "addEntriesA es nc tr = Inl err \<Longrightarrow> indexed nc tr \<Longrightarrow>
   (\<exists>nm. err = ErrorString (''Duplicate name in dir A: '' @ nm)) \<and> \<not> distinct (map de_Name (tr @ es))"
proof (induction es arbitrary: nc tr)
  case Nil
  then show ?case by simp
next
  case (Cons e es)
  show ?case
  proof (cases "nc (de_Name e)")
    case None
    with Cons.prems(1) have r: "addEntriesA es (nc(de_Name e \<mapsto> length tr)) (tr @ [e]) = Inl err"
      by (simp add: Let_def)
    from Cons.IH [OF r indexed_append [OF Cons.prems(2) None]]
    show ?thesis by simp
  next
    case (Some i)
    from indexed_None [OF Cons.prems(2), of "de_Name e"] Some
    have "de_Name e \<in> de_Name ` set tr" by simp
    then have "\<not> distinct (map de_Name (tr @ e # es))" by auto
    moreover have "err = ErrorString (''Duplicate name in dir A: '' @ de_Name e)"
      using Some Cons.prems(1) by (simp add: Let_def)
    ultimately show ?thesis by blast
  qed
qed

lemma addEntriesA_empty:
  "(\<exists>nc. addEntriesA es Map.empty [] = Inr (nc, es) \<and> indexed nc es) \<longleftrightarrow> distinct (map de_Name es)"
proof (cases "addEntriesA es Map.empty []")
  case (Inl err)
  with addEntriesA_Inl [OF Inl indexed_empty] show ?thesis by simp
next
  case (Inr r)
  obtain nc tr where r: "r = (nc, tr)" by (cases r)
  from addEntriesA_indexed [OF indexed_empty Inr [unfolded r]]
  have "indexed nc tr" "tr = es" by auto
  then show ?thesis using Inr r by (auto simp: indexed_def)
qed

lemma indexed_unique:
  "indexed nc tr \<Longrightarrow> x \<in> set tr \<Longrightarrow> y \<in> set tr \<Longrightarrow> de_Name x = de_Name y \<Longrightarrow> x = y"
  unfolding indexed_def by (meson distinct_map inj_onD)

lemma indexed_nth:
  assumes "indexed nc tr" "nc nm = Some i" "e \<in> set tr" "de_Name e = nm"
  shows "tr ! i = e"
proof -
  have "i < length tr" "de_Name (tr ! i) = nm" using assms indexed_Some by blast+
  then show ?thesis using indexed_unique [OF assms(1) _ assms(3)] assms(4) by simp
qed

lemma addEntriesB_step:
  assumes ix: "indexed nc tr" and r: "addEntriesB (b # rest) nc tr = Inr r"
  shows "\<exists>nc1 tr1. addEntriesB rest nc1 tr1 = Inr r \<and> indexed nc1 tr1 \<and>
     de_Name ` set tr1 = insert (de_Name b) (de_Name ` set tr) \<and>
     (\<forall>e\<in>set tr. de_Name e \<noteq> de_Name b \<longrightarrow> e \<in> set tr1) \<and>
     (de_Name b \<notin> de_Name ` set tr \<longrightarrow> b \<in> set tr1) \<and>
     (\<forall>e\<in>set tr. de_Name e = de_Name b \<longrightarrow>
        (if de_IsDir e \<and> de_IsDir b then \<exists>y. getMergedDirEntry e b = Inr y \<and> y \<in> set tr1
         else e \<in> set tr1))"
proof (cases "nc (de_Name b)")
  case None
  then have n: "de_Name b \<notin> de_Name ` set tr" using ix indexed_None by blast
  have "addEntriesB rest (nc(de_Name b \<mapsto> length tr)) (tr @ [b]) = Inr r"
    using r None by (simp add: Let_def)
  moreover have "indexed (nc(de_Name b \<mapsto> length tr)) (tr @ [b])"
    using ix None by (rule indexed_append)
  moreover have "\<forall>e\<in>set tr. de_Name e \<noteq> de_Name b" using n by (metis imageI)
  ultimately show ?thesis
    by (intro exI [of _ "nc(de_Name b \<mapsto> length tr)"] exI [of _ "tr @ [b]"]) auto
next
  case (Some i)
  have i: "i < length tr" "de_Name (tr ! i) = de_Name b" using ix Some indexed_Some by blast+
  then have mem: "de_Name b \<in> de_Name ` set tr" by (metis imageI nth_mem)
  have uniq: "e = tr ! i" if "e \<in> set tr" "de_Name e = de_Name b" for e
    using indexed_nth [OF ix Some that] by simp
  show ?thesis
  proof (cases "de_IsDir (tr ! i) \<and> de_IsDir b")
    case False
    have "addEntriesB rest nc tr = Inr r"
      using r Some False by (simp add: Let_def)
    then show ?thesis using ix mem False uniq
      by (intro exI [of _ nc] exI [of _ tr]) auto
  next
    case True
    obtain y where y: "getMergedDirEntry (tr ! i) b = Inr y"
      using r Some True by (auto simp: Let_def split: sum.splits)
    have ny: "de_Name y = de_Name b" using getMergedDirEntry_name [OF y] i by simp
    have step: "addEntriesB rest nc (tr[i := y]) = Inr r"
      using r Some True y by (simp add: Let_def)
    have ix': "indexed nc (tr[i := y])" using ix Some ny by (rule indexed_update)
    have m: "map de_Name (tr[i := y]) = map de_Name tr"
      using i ny by (simp add: map_update list_update_same_conv)
    have names: "de_Name ` set (tr[i := y]) = insert (de_Name b) (de_Name ` set tr)"
      using m mem by (metis insert_absorb set_map)
    have yin: "y \<in> set (tr[i := y])" using i by (simp add: set_update_memI)
    have keep: "e \<in> set (tr[i := y])" if e1: "e \<in> set tr" and e2: "de_Name e \<noteq> de_Name b" for e
    proof -
      obtain j where j: "j < length tr" "tr ! j = e" using e1 by (auto simp: in_set_conv_nth)
      with e2 i have "j \<noteq> i" by auto
      then have "tr[i := y] ! j = e" using j by simp
      then show ?thesis using j by (metis length_list_update nth_mem)
    qed
    show ?thesis
      using step ix' names yin keep uniq y True mem
      by (intro exI [of _ nc] exI [of _ "tr[i := y]"]) auto
  qed
qed

lemma addEntriesB_props:
  assumes "indexed nc tr" "addEntriesB es nc tr = Inr (nc', tr')" "distinct (map de_Name es)"
  shows "indexed nc' tr' \<and>
    de_Name ` set tr' = de_Name ` set tr \<union> de_Name ` set es \<and>
    (\<forall>e\<in>set tr. de_Name e \<notin> de_Name ` set es \<longrightarrow> e \<in> set tr') \<and>
    (\<forall>b\<in>set es. de_Name b \<notin> de_Name ` set tr \<longrightarrow> b \<in> set tr') \<and>
    (\<forall>e\<in>set tr. \<forall>b\<in>set es. de_Name e = de_Name b \<longrightarrow>
       (if de_IsDir e \<and> de_IsDir b then \<exists>y. getMergedDirEntry e b = Inr y \<and> y \<in> set tr'
        else e \<in> set tr'))"
  using assms
proof (induction es arbitrary: nc tr)
  case Nil
  then show ?case by simp
next
  case (Cons b rest)
  from addEntriesB_step [OF Cons.prems(1,2)]
  obtain nc1 tr1 where
    r: "addEntriesB rest nc1 tr1 = Inr (nc', tr')" and
    ix1: "indexed nc1 tr1" and
    s2: "de_Name ` set tr1 = insert (de_Name b) (de_Name ` set tr)" and
    s3: "\<And>e. e \<in> set tr \<Longrightarrow> de_Name e \<noteq> de_Name b \<Longrightarrow> e \<in> set tr1" and
    s4: "de_Name b \<notin> de_Name ` set tr \<Longrightarrow> b \<in> set tr1" and
    s5: "\<And>e. e \<in> set tr \<Longrightarrow> de_Name e = de_Name b \<Longrightarrow>
        (if de_IsDir e \<and> de_IsDir b then \<exists>y. getMergedDirEntry e b = Inr y \<and> y \<in> set tr1
         else e \<in> set tr1)"
    by blast
  from Cons.prems(3) have dr: "distinct (map de_Name rest)" and nb: "de_Name b \<notin> de_Name ` set rest"
    by auto
  from Cons.IH [OF ix1 r dr] have
    i1: "indexed nc' tr'" and
    i2: "de_Name ` set tr' = de_Name ` set tr1 \<union> de_Name ` set rest" and
    i3: "\<And>e. e \<in> set tr1 \<Longrightarrow> de_Name e \<notin> de_Name ` set rest \<Longrightarrow> e \<in> set tr'" and
    i4: "\<And>c. c \<in> set rest \<Longrightarrow> de_Name c \<notin> de_Name ` set tr1 \<Longrightarrow> c \<in> set tr'" and
    i5: "\<And>e c. e \<in> set tr1 \<Longrightarrow> c \<in> set rest \<Longrightarrow> de_Name e = de_Name c \<Longrightarrow>
        (if de_IsDir e \<and> de_IsDir c then \<exists>y. getMergedDirEntry e c = Inr y \<and> y \<in> set tr'
         else e \<in> set tr')"
    by blast+
  have c2: "de_Name ` set tr' = de_Name ` set tr \<union> de_Name ` set (b # rest)"
    using i2 s2 by auto
  have c3: "e \<in> set tr'" if e: "e \<in> set tr" and n: "de_Name e \<notin> de_Name ` set (b # rest)" for e
  proof -
    from n have "de_Name e \<noteq> de_Name b" "de_Name e \<notin> de_Name ` set rest" by auto
    with e s3 i3 show ?thesis by blast
  qed
  have c4: "c \<in> set tr'" if c: "c \<in> set (b # rest)" and n: "de_Name c \<notin> de_Name ` set tr" for c
  proof (cases "c = b")
    case True
    with n s4 have "b \<in> set tr1" by simp
    with nb i3 True show ?thesis by blast
  next
    case False
    with c have cr: "c \<in> set rest" by simp
    then have "de_Name c \<noteq> de_Name b" using nb by (metis imageI)
    with n s2 have "de_Name c \<notin> de_Name ` set tr1" by simp
    with cr i4 show ?thesis by blast
  qed
  have c5: "if de_IsDir e \<and> de_IsDir c then \<exists>y. getMergedDirEntry e c = Inr y \<and> y \<in> set tr'
        else e \<in> set tr'"
    if e: "e \<in> set tr" and c: "c \<in> set (b # rest)" and eq: "de_Name e = de_Name c" for e c
  proof (cases "c = b")
    case True
    have ne: "de_Name e \<notin> de_Name ` set rest" using eq True nb by simp
    show ?thesis
    proof (cases "de_IsDir e \<and> de_IsDir b")
      case d: True
      with s5 [OF e] eq True obtain y where y: "getMergedDirEntry e b = Inr y" "y \<in> set tr1"
        by auto
      have "de_Name y = de_Name e" using getMergedDirEntry_name [OF y(1)] .
      with ne i3 y(2) have "y \<in> set tr'" by simp
      with y(1) d True show ?thesis by auto
    next
      case d: False
      with s5 [OF e] eq True have "e \<in> set tr1" by auto
      with ne i3 have "e \<in> set tr'" by simp
      with d True show ?thesis by auto
    qed
  next
    case False
    with c have cr: "c \<in> set rest" by simp
    then have "de_Name c \<noteq> de_Name b" using nb by (metis imageI)
    with eq have "de_Name e \<noteq> de_Name b" by simp
    with e s3 have "e \<in> set tr1" by simp
    from i5 [OF this cr eq] show ?thesis .
  qed
  show ?case using i1 c2 c3 c4 c5 by blast
qed

lemma addEntriesB_length:
  "addEntriesB es nc tr = Inr (nc', tr') \<Longrightarrow> length tr' \<le> length tr + length es"
proof (induction es arbitrary: nc tr)
  case Nil
  then show ?case by simp
next
  case (Cons b rest)
  show ?case
  proof (cases "nc (de_Name b)")
    case None
    with Cons.prems have "addEntriesB rest (nc(de_Name b \<mapsto> length tr)) (tr @ [b]) = Inr (nc', tr')"
      by (simp add: Let_def)
    from Cons.IH [OF this] show ?thesis by simp
  next
    case (Some i)
    show ?thesis
    proof (cases "de_IsDir (tr ! i) \<and> de_IsDir b")
      case False
      with Some Cons.prems have "addEntriesB rest nc tr = Inr (nc', tr')"
        by (simp add: Let_def)
      from Cons.IH [OF this] show ?thesis by simp
    next
      case True
      with Some Cons.prems obtain y where "addEntriesB rest nc (tr[i := y]) = Inr (nc', tr')"
        by (auto simp: Let_def split: sum.splits)
      from Cons.IH [OF this] show ?thesis by simp
    qed
  qed
qed

lemma mergeDirEntries_Inr:
  assumes "ReadDirFile_all a = Some (Inr esA)" "ReadDirFile_all b = Some (Inr esB)"
    and "mergeDirEntries a b = Inr es"
  shows "\<exists>ncA nc' tr'. addEntriesA esA Map.empty [] = Inr (ncA, esA) \<and> indexed ncA esA \<and>
     addEntriesB esB ncA esA = Inr (nc', tr') \<and> es = sort_key de_Name tr'"
proof -
  from assms obtain ncA trA where a: "addEntriesA esA Map.empty [] = Inr (ncA, trA)"
    by (auto simp: mergeDirEntries_def split: sum.splits)
  from addEntriesA_indexed [OF indexed_empty a] have ia: "indexed ncA trA" "trA = esA" by auto
  from assms a obtain nc' tr' where "addEntriesB esB ncA trA = Inr (nc', tr')" "es = sort_key de_Name tr'"
    by (auto simp: mergeDirEntries_def split: sum.splits)
  with a ia show ?thesis by auto
qed

lemma sless_max: "sint (if (a :: 64 word) <s b then b else a) = max (sint a) (sint b)"
  by (simp add: word_sless_alt max_def)

lemma mergeDirEntries_props:
  assumes ra: "ReadDirFile_all a = Some (Inr esA)" and rb: "ReadDirFile_all b = Some (Inr esB)"
    and dB: "distinct (map de_Name esB)"
    and mg: "mergeDirEntries a b = Inr es"
  shows "distinct (map de_Name esA)"
    and "sorted (map de_Name es)"
    and "distinct (map de_Name es)"
    and "de_Name ` set es = de_Name ` set esA \<union> de_Name ` set esB"
    and "length es \<le> length esA + length esB"
    and "\<forall>ea\<in>set esA. de_Name ea \<notin> de_Name ` set esB \<longrightarrow> ea \<in> set es"
    and "\<forall>eb\<in>set esB. de_Name eb \<notin> de_Name ` set esA \<longrightarrow> eb \<in> set es"
    and "\<forall>ea\<in>set esA. \<forall>eb\<in>set esB. de_Name ea = de_Name eb \<longrightarrow>
       (if de_IsDir ea \<and> de_IsDir eb then \<exists>y. getMergedDirEntry ea eb = Inr y \<and> y \<in> set es
        else ea \<in> set es)"
proof -
  from mergeDirEntries_Inr [OF ra rb mg] obtain ncA nc' tr' where
    a: "addEntriesA esA Map.empty [] = Inr (ncA, esA)" and ia: "indexed ncA esA" and
    b: "addEntriesB esB ncA esA = Inr (nc', tr')" and es: "es = sort_key de_Name tr'"
    by blast
  note p = addEntriesB_props [OF ia b dB]
  show "distinct (map de_Name esA)" using ia by (simp add: indexed_def)
  show "sorted (map de_Name es)" unfolding es by (rule sorted_sort_key)
  have "distinct (map de_Name tr')" using p by (simp add: indexed_def)
  then show "distinct (map de_Name es)" unfolding es by (simp add: distinct_map)
  show "de_Name ` set es = de_Name ` set esA \<union> de_Name ` set esB" unfolding es using p by simp
  show "length es \<le> length esA + length esB" unfolding es using addEntriesB_length [OF b] by simp
  show "\<forall>ea\<in>set esA. de_Name ea \<notin> de_Name ` set esB \<longrightarrow> ea \<in> set es" unfolding es using p by simp
  show "\<forall>eb\<in>set esB. de_Name eb \<notin> de_Name ` set esA \<longrightarrow> eb \<in> set es" unfolding es using p by simp
  show "\<forall>ea\<in>set esA. \<forall>eb\<in>set esB. de_Name ea = de_Name eb \<longrightarrow>
       (if de_IsDir ea \<and> de_IsDir eb then \<exists>y. getMergedDirEntry ea eb = Inr y \<and> y \<in> set es
        else ea \<in> set es)" unfolding es using p by simp
qed

lemma Open_both_dirs:
  assumes "ValidPath P"
    and "openA (A m) P = (Inr fA, a')" "Stat fA = Inr iA" "fi_IsDir iA"
    and "openB (B m) P = (Inr fB, b')" "Stat fB = Inr iB" "fi_IsDir iB"
  shows "Open openA openB m P = (newMergedDirectory fA fB P, m\<lparr>A := a', B := b'\<rparr>)"
  using assms by (simp add: Open_def)

lemma newMergedDirectory_Inr:
  "newMergedDirectory a b p = Inr h \<longleftrightarrow>
   (\<exists>sA sB es. Stat a = Inr sA \<and> Stat b = Inr sB \<and> mergeDirEntries a b = Inr es \<and>
      h = MergedDir \<lparr>name = baseName p, mode = fi_Mode sA,
            modTime = (if fi_ModTime sA <s fi_ModTime sB then fi_ModTime sB else fi_ModTime sA),
            entries = es, readOffset = 0\<rparr>)"
  by (auto simp: newMergedDirectory_def Let_def split: sum.splits)

lemma newMergedDirectory_InrD:
  assumes "newMergedDirectory a b p = Inr h"
  shows "\<exists>d sA sB. h = MergedDir d \<and> readOffset d = 0 \<and> name d = baseName p \<and>
    Stat a = Inr sA \<and> Stat b = Inr sB \<and> mode d = fi_Mode sA \<and>
    modTime d = (if fi_ModTime sA <s fi_ModTime sB then fi_ModTime sB else fi_ModTime sA) \<and>
    mergeDirEntries a b = Inr (entries d)"
  using assms by (auto simp: newMergedDirectory_def Let_def split: sum.splits)

lemma ReadDir_fresh_all:
  "readOffset d = 0 \<Longrightarrow> length (entries d) < 2 ^ 63 \<Longrightarrow> fst (ReadDir d (- 1)) = Returned (entries d) None"
  by (auto simp add: ReadDir_def Let_def sint_of_nat64)

text \<open>
  Claim C2. Let \<open>P\<close> be a valid path that both \<open>A\<close> and \<open>B\<close> open as a directory, with
  listings \<open>esA\<close> and \<open>esB\<close>, the names of \<open>esB\<close> being distinct, and let \<^verbatim>\<open>Open\<close> return
  a handle. Then the handle is a merged directory, and listing it with \<^verbatim>\<open>ReadDir(-1)\<close>
  yields its entries: their names are the union of the names of \<open>esA\<close> and \<open>esB\<close>, sorted
  and distinct; an entry whose name is in one listing only is kept; for a name that is
  a directory in both, the entry carries the name and the mode of the entry of \<open>A\<close> and
  the later of the two modification times; for a name that is not a directory in both,
  the entry of \<open>A\<close> is kept and the entry of \<open>B\<close> is not in the result.
\<close>

theorem Open_merged_listing:
  assumes "ValidPath P"
    and "openA (A m) P = (Inr fA, a')" and "Stat fA = Inr iA" and "fi_IsDir iA"
    and "openB (B m) P = (Inr fB, b')" and "Stat fB = Inr iB" and "fi_IsDir iB"
    and "ReadDirFile_all fA = Some (Inr esA)" and "ReadDirFile_all fB = Some (Inr esB)"
    and "distinct (map de_Name esB)"
    and "length esA + length esB < 2 ^ 63"
    and "fst (Open openA openB m P) = Inr h"
  shows "\<exists>d. h = MergedDir d \<and> fst (ReadDir d (- 1)) = Returned (entries d) None \<and>
    de_Name ` set (entries d) = de_Name ` set esA \<union> de_Name ` set esB \<and>
    sorted (map de_Name (entries d)) \<and> distinct (map de_Name (entries d)) \<and>
    (\<forall>ea\<in>set esA. de_Name ea \<notin> de_Name ` set esB \<longrightarrow> ea \<in> set (entries d)) \<and>
    (\<forall>eb\<in>set esB. de_Name eb \<notin> de_Name ` set esA \<longrightarrow> eb \<in> set (entries d)) \<and>
    (\<forall>ea\<in>set esA. \<forall>eb\<in>set esB. de_Name ea = de_Name eb \<longrightarrow>
       (if de_IsDir ea \<and> de_IsDir eb then
          \<exists>ia ib t. de_Info ea = Inr ia \<and> de_Info eb = Inr ib \<and>
            sint t = max (sint (fi_ModTime ia)) (sint (fi_ModTime ib)) \<and>
            \<lparr>de_Name = de_Name ea, de_IsDir = True,
             de_Info = Inr \<lparr>fi_Name = de_Name ea, fi_Size = 0, fi_Mode = fi_Mode ia,
                            fi_ModTime = t, fi_IsDir = True\<rparr>\<rparr> \<in> set (entries d)
        else ea \<in> set (entries d) \<and> (eb \<in> set (entries d) \<longrightarrow> eb = ea)))"
proof -
  from assms(12) Open_both_dirs [where openA = openA and openB = openB and m = m, OF assms(1-7)] have "newMergedDirectory fA fB P = Inr h"
    by simp
  from newMergedDirectory_InrD [OF this] obtain d where
    h: "h = MergedDir d" and r0: "readOffset d = 0" and mg: "mergeDirEntries fA fB = Inr (entries d)"
    by blast
  note p = mergeDirEntries_props [OF assms(8,9,10) mg]
  have len: "length (entries d) < 2 ^ 63" using p(5) assms(11) by simp
  have uniq: "x = y" if "x \<in> set (entries d)" "y \<in> set (entries d)" "de_Name x = de_Name y" for x y
    using p(3) that by (meson distinct_map inj_onD)
  have conflict: "if de_IsDir ea \<and> de_IsDir eb then
          \<exists>ia ib t. de_Info ea = Inr ia \<and> de_Info eb = Inr ib \<and>
            sint t = max (sint (fi_ModTime ia)) (sint (fi_ModTime ib)) \<and>
            \<lparr>de_Name = de_Name ea, de_IsDir = True,
             de_Info = Inr \<lparr>fi_Name = de_Name ea, fi_Size = 0, fi_Mode = fi_Mode ia,
                            fi_ModTime = t, fi_IsDir = True\<rparr>\<rparr> \<in> set (entries d)
        else ea \<in> set (entries d) \<and> (eb \<in> set (entries d) \<longrightarrow> eb = ea)"
    if ea: "ea \<in> set esA" and eb: "eb \<in> set esB" and eq: "de_Name ea = de_Name eb" for ea eb
  proof (cases "de_IsDir ea \<and> de_IsDir eb")
    case True
    with p(8) [rule_format, OF ea eb eq] obtain y where
      y: "getMergedDirEntry ea eb = Inr y" "y \<in> set (entries d)"
      by auto
    from y(1) obtain ia ib where i: "de_Info ea = Inr ia" "de_Info eb = Inr ib"
      "y = \<lparr>de_Name = de_Name ea, de_IsDir = True,
           de_Info = Inr \<lparr>fi_Name = de_Name ea, fi_Size = 0, fi_Mode = fi_Mode ia,
             fi_ModTime = (if fi_ModTime ia <s fi_ModTime ib then fi_ModTime ib else fi_ModTime ia),
             fi_IsDir = True\<rparr>\<rparr>"
      unfolding getMergedDirEntry_Inr by blast
    have "\<exists>ia ib t. de_Info ea = Inr ia \<and> de_Info eb = Inr ib \<and>
            sint t = max (sint (fi_ModTime ia)) (sint (fi_ModTime ib)) \<and>
            \<lparr>de_Name = de_Name ea, de_IsDir = True,
             de_Info = Inr \<lparr>fi_Name = de_Name ea, fi_Size = 0, fi_Mode = fi_Mode ia,
                            fi_ModTime = t, fi_IsDir = True\<rparr>\<rparr> \<in> set (entries d)"
      using i(1,2) y(2) [unfolded i(3)] sless_max [of "fi_ModTime ia" "fi_ModTime ib"]
      by (intro exI [of _ ia] exI [of _ ib]
          exI [of _ "if fi_ModTime ia <s fi_ModTime ib then fi_ModTime ib else fi_ModTime ia"] conjI)
    then show ?thesis using True by simp
  next
    case False
    with p(8) [rule_format, OF ea eb eq] have "ea \<in> set (entries d)" by auto
    with uniq eq False show ?thesis by auto
  qed
  show ?thesis
  proof (intro exI [of _ d] conjI ballI impI)
    show "h = MergedDir d" by (rule h)
    show "fst (ReadDir d (- 1)) = Returned (entries d) None" by (rule ReadDir_fresh_all [OF r0 len])
    show "de_Name ` set (entries d) = de_Name ` set esA \<union> de_Name ` set esB" by (rule p(4))
    show "sorted (map de_Name (entries d))" by (rule p(2))
    show "distinct (map de_Name (entries d))" by (rule p(3))
    show "ea \<in> set (entries d)" if "ea \<in> set esA" "de_Name ea \<notin> de_Name ` set esB" for ea
      using p(6) that by blast
    show "eb \<in> set (entries d)" if "eb \<in> set esB" "de_Name eb \<notin> de_Name ` set esA" for eb
      using p(7) that by blast
    show "if de_IsDir ea \<and> de_IsDir eb then
          \<exists>ia ib t. de_Info ea = Inr ia \<and> de_Info eb = Inr ib \<and>
            sint t = max (sint (fi_ModTime ia)) (sint (fi_ModTime ib)) \<and>
            \<lparr>de_Name = de_Name ea, de_IsDir = True,
             de_Info = Inr \<lparr>fi_Name = de_Name ea, fi_Size = 0, fi_Mode = fi_Mode ia,
                            fi_ModTime = t, fi_IsDir = True\<rparr>\<rparr> \<in> set (entries d)
        else ea \<in> set (entries d) \<and> (eb \<in> set (entries d) \<longrightarrow> eb = ea)"
      if "ea \<in> set esA" "eb \<in> set esB" "de_Name ea = de_Name eb" for ea eb
      using that by (rule conflict)
  qed
qed

lemma ValidPath_dot: "ValidPath ''.''"
  by (simp add: ValidPath_def)

lemma exampleA_root:
  "SourceFS (A (NewMergedFS exampleA exampleB)) ''.'' =
     (Inr (directory ''.'' 0x800001ED 5 [fileEntry ''a'' 1, directoryEntry ''b'' 0x800001ED 7]), exampleA)"
  by (simp add: SourceFS_def NewMergedFS_def exampleA_def)

lemma exampleB_root:
  "SourceFS (B (NewMergedFS exampleA exampleB)) ''.'' =
     (Inr (directory ''.'' 0x800001C0 6
               [directoryEntry ''a'' 0x800001C0 3, directoryEntry ''b'' 0x800001C0 9,
                directoryEntry ''e'' 0x800001C0 4, directoryEntry ''s'' 0x800001C0 4]), exampleB)"
  by (simp add: SourceFS_def NewMergedFS_def exampleB_def)

theorem Open_merged_listing_witness:
  "\<exists>d. fst (Open SourceFS SourceFS (NewMergedFS exampleA exampleB) ''.'') = Inr (MergedDir d) \<and>
     fst (ReadDir d (- 1)) = Returned (entries d) None \<and>
     de_Name ` set (entries d) = {''a'', ''b'', ''e'', ''s''} \<and>
     sorted (map de_Name (entries d)) \<and> distinct (map de_Name (entries d)) \<and>
     fileEntry ''a'' 1 \<in> set (entries d) \<and>
     directoryEntry ''a'' 0x800001C0 3 \<notin> set (entries d) \<and>
     directoryEntry ''e'' 0x800001C0 4 \<in> set (entries d) \<and>
     (\<exists>t. sint t = 9 \<and>
        \<lparr>de_Name = ''b'', de_IsDir = True,
         de_Info = Inr \<lparr>fi_Name = ''b'', fi_Size = 0, fi_Mode = 0x800001ED, fi_ModTime = t,
                        fi_IsDir = True\<rparr>\<rparr> \<in> set (entries d))"
proof -
  let ?esA = "[fileEntry ''a'' 1, directoryEntry ''b'' 0x800001ED 7]"
  let ?esB = "[directoryEntry ''a'' 0x800001C0 3, directoryEntry ''b'' 0x800001C0 9,
                directoryEntry ''e'' 0x800001C0 4, directoryEntry ''s'' 0x800001C0 4]"
  let ?fA = "directory ''.'' 0x800001ED 5 ?esA"
  let ?fB = "directory ''.'' 0x800001C0 6 ?esB"
  have sA: "Stat ?fA = Inr (directoryInfo ''.'' 0x800001ED 5)" by (simp add: directory_def)
  have sB: "Stat ?fB = Inr (directoryInfo ''.'' 0x800001C0 6)" by (simp add: directory_def)
  have dA: "fi_IsDir (directoryInfo ''.'' 0x800001ED 5)" by (simp add: directoryInfo_def)
  have dB: "fi_IsDir (directoryInfo ''.'' 0x800001C0 6)" by (simp add: directoryInfo_def)
  have rA: "ReadDirFile_all ?fA = Some (Inr ?esA)" by (simp add: directory_def)
  have rB: "ReadDirFile_all ?fB = Some (Inr ?esB)" by (simp add: directory_def)
  have dist: "distinct (map de_Name ?esB)" by (simp add: directoryEntry_def)
  have len: "length ?esA + length ?esB < 2 ^ 63" by simp
  have "\<exists>h. fst (Open SourceFS SourceFS (NewMergedFS exampleA exampleB) ''.'') = Inr h"
    by (simp add: Open_def ValidPath_dot SourceFS_def NewMergedFS_def exampleA_def exampleB_def
        directory_def directoryInfo_def fileEntry_def directoryEntry_def newMergedDirectory_def
        mergeDirEntries_def getMergedDirEntry_def Let_def)
  then obtain h where h: "fst (Open SourceFS SourceFS (NewMergedFS exampleA exampleB) ''.'') = Inr h" ..
  from Open_merged_listing [where openA = SourceFS and openB = SourceFS,
      OF ValidPath_dot exampleA_root sA dA exampleB_root sB dB rA rB dist len h]
  obtain d where d: "h = MergedDir d" "fst (ReadDir d (- 1)) = Returned (entries d) None"
    "de_Name ` set (entries d) = de_Name ` set ?esA \<union> de_Name ` set ?esB"
    "sorted (map de_Name (entries d))" "distinct (map de_Name (entries d))"
    "\<forall>eb\<in>set ?esB. de_Name eb \<notin> de_Name ` set ?esA \<longrightarrow> eb \<in> set (entries d)"
    "\<forall>ea\<in>set ?esA. \<forall>eb\<in>set ?esB. de_Name ea = de_Name eb \<longrightarrow>
       (if de_IsDir ea \<and> de_IsDir eb then
          \<exists>ia ib t. de_Info ea = Inr ia \<and> de_Info eb = Inr ib \<and>
            sint t = max (sint (fi_ModTime ia)) (sint (fi_ModTime ib)) \<and>
            \<lparr>de_Name = de_Name ea, de_IsDir = True,
             de_Info = Inr \<lparr>fi_Name = de_Name ea, fi_Size = 0, fi_Mode = fi_Mode ia,
                            fi_ModTime = t, fi_IsDir = True\<rparr>\<rparr> \<in> set (entries d)
        else ea \<in> set (entries d) \<and> (eb \<in> set (entries d) \<longrightarrow> eb = ea))"
    by blast
  have n: "de_Name ` set (entries d) = {''a'', ''b'', ''e'', ''s''}"
    using d(3) by (auto simp: fileEntry_def directoryEntry_def)
  have e: "directoryEntry ''e'' 0x800001C0 4 \<in> set (entries d)"
    using d(6) by (simp add: fileEntry_def directoryEntry_def)
  have a: "fileEntry ''a'' 1 \<in> set (entries d) \<and> directoryEntry ''a'' 0x800001C0 3 \<notin> set (entries d)"
    using d(7) by (auto simp add: fileEntry_def directoryEntry_def directoryInfo_def)
  have b: "\<exists>t. sint t = 9 \<and>
        \<lparr>de_Name = ''b'', de_IsDir = True,
         de_Info = Inr \<lparr>fi_Name = ''b'', fi_Size = 0, fi_Mode = 0x800001ED, fi_ModTime = t,
                        fi_IsDir = True\<rparr>\<rparr> \<in> set (entries d)"
    using d(7) by (simp add: fileEntry_def directoryEntry_def directoryInfo_def)
  show ?thesis using h d(1,2,4,5) n e a b by blast
qed

lemma addEntriesA_append:
  "addEntriesA (xs @ ys) nc tr =
     (case addEntriesA xs nc tr of Inl e \<Rightarrow> Inl e | Inr (nc', tr') \<Rightarrow> addEntriesA ys nc' tr')"
proof (induction xs arbitrary: nc tr)
  case Nil
  then show ?case by simp
next
  case (Cons x xs)
  show ?case
  proof (cases "nc (de_Name x)")
    case None
    then show ?thesis
      using Cons.IH [of "nc(de_Name x \<mapsto> length tr)" "tr @ [x]"]
      by (simp add: Let_def del: fun_upd_apply)
  next
    case (Some i)
    then show ?thesis by (simp add: Let_def)
  qed
qed

lemma addEntriesB_new_prefix:
  assumes "indexed nc tr" "distinct (map de_Name (tr @ pre))"
  shows "addEntriesB (pre @ post) nc tr =
     (case addEntriesA pre nc tr of Inl e \<Rightarrow> Inl e | Inr (nc', tr') \<Rightarrow> addEntriesB post nc' tr')"
  using assms
proof (induction pre arbitrary: nc tr)
  case Nil
  then show ?case by simp
next
  case (Cons b pre)
  from Cons.prems(2) have "de_Name b \<notin> de_Name ` set tr" by auto
  then have none: "nc (de_Name b) = None" using indexed_None [OF Cons.prems(1)] by blast
  have ix: "indexed (nc(de_Name b \<mapsto> length tr)) (tr @ [b])"
    using Cons.prems(1) none by (rule indexed_append)
  have d: "distinct (map de_Name ((tr @ [b]) @ pre))" using Cons.prems(2) by simp
  from Cons.IH [OF ix d] none show ?case by (simp add: Let_def del: fun_upd_apply)
qed

lemma addEntriesB_Inl:
  "addEntriesB es nc tr = Inl err \<Longrightarrow> \<exists>pre e. err = Errorf pre e []"
proof (induction es arbitrary: nc tr)
  case Nil
  then show ?case by simp
next
  case (Cons b rest)
  show ?case
  proof (cases "nc (de_Name b)")
    case None
    with Cons.prems have "addEntriesB rest (nc(de_Name b \<mapsto> length tr)) (tr @ [b]) = Inl err"
      by (simp add: Let_def)
    then show ?thesis by (rule Cons.IH)
  next
    case (Some i)
    show ?thesis
    proof (cases "de_IsDir (tr ! i) \<and> de_IsDir b")
      case False
      with Some Cons.prems have "addEntriesB rest nc tr = Inl err" by (simp add: Let_def)
      then show ?thesis by (rule Cons.IH)
    next
      case True
      show ?thesis
      proof (cases "getMergedDirEntry (tr ! i) b")
        case (Inl e)
        with Some True Cons.prems
        have "err = Errorf (''Failed getting merged DirEntry for '' @ de_Name b @ '': '') e []"
          by (simp add: Let_def)
        then show ?thesis by blast
      next
        case (Inr y)
        with Some True Cons.prems have "addEntriesB rest nc (tr[i := y]) = Inl err"
          by (simp add: Let_def)
        then show ?thesis by (rule Cons.IH)
      qed
    qed
  qed
qed

lemma mergeDirEntries_listings:
  assumes "ReadDirFile_all a = Some (Inr esA)" "ReadDirFile_all b = Some (Inr esB)"
  shows "mergeDirEntries a b =
     (case addEntriesA esA Map.empty [] of
        Inl e \<Rightarrow> Inl e
      | Inr (nc, tr) \<Rightarrow>
          (case addEntriesB esB nc tr of
             Inl e \<Rightarrow> Inl e
           | Inr (nc', tr') \<Rightarrow> Inr (sort_key de_Name tr')))"
  using assms by (simp add: mergeDirEntries_def split: sum.splits prod.splits)

lemma addEntriesB_reconcile:
  assumes "indexed nc tr" and "addEntriesB es nc tr = Inr (nc', tr')"
  shows "indexed nc' tr' \<and>
    de_Name ` set tr' = de_Name ` set tr \<union> de_Name ` set es \<and>
    (\<forall>cur\<in>set tr. \<exists>y\<in>set tr'. reconcile cur (filter (\<lambda>e. de_Name e = de_Name cur) es) = Inr y) \<and>
    (\<forall>nm first later. nm \<notin> de_Name ` set tr \<longrightarrow> filter (\<lambda>e. de_Name e = nm) es = first # later \<longrightarrow>
       (\<exists>y\<in>set tr'. reconcile first later = Inr y))"
  using assms
proof (induction es arbitrary: nc tr)
  case Nil
  then show ?case by auto
next
  case (Cons b rest)
  let ?n = "de_Name b"
  show ?case
  proof (cases "nc ?n")
    case None
    then have new: "?n \<notin> de_Name ` set tr" using indexed_None [OF Cons.prems(1)] by simp
    let ?nc1 = "nc(?n \<mapsto> length tr)"
    let ?tr1 = "tr @ [b]"
    have ix: "indexed ?nc1 ?tr1" using indexed_append [OF Cons.prems(1) None] .
    have run: "addEntriesB rest ?nc1 ?tr1 = Inr (nc', tr')"
      using Cons.prems(2) None by (simp add: Let_def)
    note ih = Cons.IH [OF ix run]
    from ih have 1: "indexed nc' tr'" by simp
    from ih have 2: "de_Name ` set tr' = de_Name ` set tr \<union> de_Name ` set (b # rest)" by auto
    from ih have 3: "\<And>cur. cur \<in> set ?tr1 \<Longrightarrow>
        \<exists>y\<in>set tr'. reconcile cur (filter (\<lambda>e. de_Name e = de_Name cur) rest) = Inr y" by blast
    from ih have 4: "\<And>nm first later. nm \<notin> de_Name ` set ?tr1 \<Longrightarrow>
        filter (\<lambda>e. de_Name e = nm) rest = first # later \<Longrightarrow>
        \<exists>y\<in>set tr'. reconcile first later = Inr y" by blast
    have 5: "\<exists>y\<in>set tr'. reconcile cur (filter (\<lambda>e. de_Name e = de_Name cur) (b # rest)) = Inr y"
      if "cur \<in> set tr" for cur
    proof -
      from that new have "de_Name b \<noteq> de_Name cur" by force
      then show ?thesis using 3 [of cur] that by simp
    qed
    have 6: "\<exists>y\<in>set tr'. reconcile first later = Inr y"
      if n: "nm \<notin> de_Name ` set tr" and f: "filter (\<lambda>e. de_Name e = nm) (b # rest) = first # later"
      for nm first later
    proof (cases "?n = nm")
      case True
      with f have "first = b" "later = filter (\<lambda>e. de_Name e = de_Name b) rest" by simp_all
      then show ?thesis using 3 [of b] by simp
    next
      case False
      with f have "filter (\<lambda>e. de_Name e = nm) rest = first # later" by simp
      moreover have "nm \<notin> de_Name ` set ?tr1" using n False by auto
      ultimately show ?thesis using 4 by blast
    qed
    from 1 2 5 6 show ?thesis by blast
  next
    case (Some i)
    from indexed_Some [OF Cons.prems(1) Some] have i: "i < length tr" "de_Name (tr ! i) = ?n" by simp_all
    let ?ex = "tr ! i"
    have exin: "?ex \<in> set tr" using i by simp
    have uniq: "cur = ?ex" if "cur \<in> set tr" "de_Name cur = ?n" for cur
      using indexed_unique [OF Cons.prems(1) that(1) exin] that(2) i(2) by simp
    have old: "?n \<in> de_Name ` set tr" using exin i(2) by (metis imageI)
    show ?thesis
    proof (cases "de_IsDir ?ex \<and> de_IsDir b")
      case False
      have run: "addEntriesB rest nc tr = Inr (nc', tr')"
        using Cons.prems(2) Some False by (simp add: Let_def)
      note ih = Cons.IH [OF Cons.prems(1) run]
      from ih have 1: "indexed nc' tr'" by simp
      from ih old have 2: "de_Name ` set tr' = de_Name ` set tr \<union> de_Name ` set (b # rest)" by auto
      from ih have 3: "\<And>cur. cur \<in> set tr \<Longrightarrow>
          \<exists>y\<in>set tr'. reconcile cur (filter (\<lambda>e. de_Name e = de_Name cur) rest) = Inr y" by blast
      from ih have 4: "\<And>nm first later. nm \<notin> de_Name ` set tr \<Longrightarrow>
          filter (\<lambda>e. de_Name e = nm) rest = first # later \<Longrightarrow>
          \<exists>y\<in>set tr'. reconcile first later = Inr y" by blast
      have 5: "\<exists>y\<in>set tr'. reconcile cur (filter (\<lambda>e. de_Name e = de_Name cur) (b # rest)) = Inr y"
        if c: "cur \<in> set tr" for cur
      proof (cases "de_Name cur = ?n")
        case True
        with uniq [OF c] have "cur = ?ex" by simp
        with False True 3 [OF c] show ?thesis by auto
      next
        case False
        then have "de_Name b \<noteq> de_Name cur" by simp
        then show ?thesis using 3 [OF c] by simp
      qed
      have 6: "\<exists>y\<in>set tr'. reconcile first later = Inr y"
        if n: "nm \<notin> de_Name ` set tr" and f: "filter (\<lambda>e. de_Name e = nm) (b # rest) = first # later"
        for nm first later
      proof -
        from n old have "?n \<noteq> nm" by blast
        with f have "filter (\<lambda>e. de_Name e = nm) rest = first # later" by simp
        with 4 [OF n] show ?thesis by blast
      qed
      from 1 2 5 6 show ?thesis by blast
    next
      case True
      from Cons.prems(2) Some True obtain y0 where
        g: "getMergedDirEntry ?ex b = Inr y0"
        and run: "addEntriesB rest nc (tr[i := y0]) = Inr (nc', tr')"
        by (simp add: Let_def split: sum.splits)
      have ny: "de_Name y0 = ?n" using getMergedDirEntry_name [OF g] i(2) by simp
      have ix: "indexed nc (tr[i := y0])" using indexed_update [OF Cons.prems(1) Some ny] .
      have names: "de_Name ` set (tr[i := y0]) = de_Name ` set tr"
      proof -
        have "map de_Name (tr[i := y0]) = map de_Name tr"
          using i ny by (simp add: map_update list_update_same_conv)
        then have "set (map de_Name (tr[i := y0])) = set (map de_Name tr)" by simp
        then show ?thesis by simp
      qed
      have y0in: "y0 \<in> set (tr[i := y0])" using i(1) by (simp add: set_update_memI)
      have keep: "cur \<in> set (tr[i := y0])" if c: "cur \<in> set tr" and ne: "de_Name cur \<noteq> ?n" for cur
      proof -
        from c obtain j where j: "j < length tr" "tr ! j = cur" by (auto simp: in_set_conv_nth)
        with ne i(2) have "j \<noteq> i" by auto
        with j have "tr[i := y0] ! j = cur" "j < length (tr[i := y0])" by simp_all
        then show ?thesis by (metis nth_mem)
      qed
      note ih = Cons.IH [OF ix run]
      from ih have 1: "indexed nc' tr'" by simp
      from ih old names have 2: "de_Name ` set tr' = de_Name ` set tr \<union> de_Name ` set (b # rest)"
        by auto
      from ih have 3: "\<And>cur. cur \<in> set (tr[i := y0]) \<Longrightarrow>
          \<exists>y\<in>set tr'. reconcile cur (filter (\<lambda>e. de_Name e = de_Name cur) rest) = Inr y" by blast
      from ih names have 4: "\<And>nm first later. nm \<notin> de_Name ` set tr \<Longrightarrow>
          filter (\<lambda>e. de_Name e = nm) rest = first # later \<Longrightarrow>
          \<exists>y\<in>set tr'. reconcile first later = Inr y" by simp
      have 5: "\<exists>y\<in>set tr'. reconcile cur (filter (\<lambda>e. de_Name e = de_Name cur) (b # rest)) = Inr y"
        if c: "cur \<in> set tr" for cur
      proof (cases "de_Name cur = ?n")
        case eq: True
        with uniq [OF c] have ce: "cur = ?ex" by simp
        from 3 [OF y0in] ny
        have "\<exists>y\<in>set tr'. reconcile y0 (filter (\<lambda>e. de_Name e = ?n) rest) = Inr y" by simp
        then show ?thesis using ce True g i(2) by auto
      next
        case False
        then have "de_Name b \<noteq> de_Name cur" by simp
        then show ?thesis using 3 [OF keep [OF c False]] by simp
      qed
      have 6: "\<exists>y\<in>set tr'. reconcile first later = Inr y"
        if n: "nm \<notin> de_Name ` set tr" and f: "filter (\<lambda>e. de_Name e = nm) (b # rest) = first # later"
        for nm first later
      proof -
        from n old have "?n \<noteq> nm" by blast
        with f have "filter (\<lambda>e. de_Name e = nm) rest = first # later" by simp
        with 4 [OF n] show ?thesis by blast
      qed
      from 1 2 5 6 show ?thesis by blast
    qed
  qed
qed

lemma reconcile_closed:
  assumes "reconcile cur bs = Inr y"
  shows "(\<not> de_IsDir cur \<or> filter de_IsDir bs = [] \<longrightarrow> y = cur) \<and>
    (de_IsDir cur \<longrightarrow> filter de_IsDir bs \<noteq> [] \<longrightarrow>
       (\<exists>info infos. de_Info cur = Inr info \<and> map de_Info (filter de_IsDir bs) = map Inr infos \<and>
          y = MergedDirectory_DirEntry
                \<lparr>name = de_Name cur, mode = fi_Mode info,
                 modTime = foldl (\<lambda>t u. if t <s u then u else t) (fi_ModTime info)
                             (map fi_ModTime infos),
                 entries = [], readOffset = 0\<rparr>))"
  using assms
proof (induction bs arbitrary: cur)
  case Nil
  then show ?case by simp
next
  case (Cons b bs)
  show ?case
  proof (cases "de_IsDir cur \<and> de_IsDir b")
    case False
    with Cons.prems have r: "reconcile cur bs = Inr y" by simp
    from Cons.IH [OF r] False show ?thesis by auto
  next
    case True
    with Cons.prems obtain y0 where g: "getMergedDirEntry cur b = Inr y0"
      and r: "reconcile y0 bs = Inr y" by (simp split: sum.splits)
    from g obtain ia ib where ia: "de_Info cur = Inr ia" and ib: "de_Info b = Inr ib"
      and y0: "y0 = MergedDirectory_DirEntry
                \<lparr>name = de_Name cur, mode = fi_Mode ia,
                 modTime = (if fi_ModTime ia <s fi_ModTime ib then fi_ModTime ib else fi_ModTime ia),
                 entries = [], readOffset = 0\<rparr>"
      by (auto simp: getMergedDirEntry_def Let_def split: sum.splits)
    have d0: "de_IsDir y0" "de_Name y0 = de_Name cur"
      "de_Info y0 = Inr \<lparr>fi_Name = de_Name cur, fi_Size = 0, fi_Mode = fi_Mode ia,
         fi_ModTime = (if fi_ModTime ia <s fi_ModTime ib then fi_ModTime ib else fi_ModTime ia),
         fi_IsDir = True\<rparr>"
      by (simp_all add: y0 MergedDirectory_DirEntry_def MergedDirectory_FileInfo_def)
    show ?thesis
    proof (cases "filter de_IsDir bs = []")
      case e: True
      with Cons.IH [OF r] have "y = y0" by simp
      then show ?thesis using True ia ib y0 e
        by (auto intro!: exI [of _ "[ib]"])
    next
      case ne: False
      with Cons.IH [OF r] d0 obtain infos where
        m: "map de_Info (filter de_IsDir bs) = map Inr infos"
        and y: "y = MergedDirectory_DirEntry
                \<lparr>name = de_Name cur, mode = fi_Mode ia,
                 modTime = foldl (\<lambda>t u. if t <s u then u else t)
                    (if fi_ModTime ia <s fi_ModTime ib then fi_ModTime ib else fi_ModTime ia)
                    (map fi_ModTime infos),
                 entries = [], readOffset = 0\<rparr>"
        by auto
      show ?thesis using True ia ib m y
        by (auto intro!: exI [of _ "ib # infos"])
    qed
  qed
qed

lemma filter_name_distinct:
  "distinct (map f xs) \<Longrightarrow> x \<in> set xs \<Longrightarrow> filter (\<lambda>e. f e = f x) xs = [x]"
proof (induction xs)
  case Nil
  then show ?case by simp
next
  case (Cons z zs)
  show ?case
  proof (cases "x = z")
    case True
    from Cons.prems(1) have "\<forall>e\<in>set zs. f e \<noteq> f z" by (metis distinct.simps(2) imageI list.simps(9) set_map)
    then have "filter (\<lambda>e. f e = f z) zs = []" by (simp add: filter_empty_conv)
    with True show ?thesis by simp
  next
    case False
    with Cons.prems have in_zs: "x \<in> set zs" by simp
    with Cons.prems(1) have "f z \<noteq> f x" by (metis distinct.simps(2) imageI list.simps(9) set_map)
    with Cons.IH in_zs Cons.prems(1) show ?thesis by simp
  qed
qed

lemma addEntriesB_total:
  assumes "indexed nc tr" and "\<forall>e\<in>set tr \<union> set es. de_IsDir e \<longrightarrow> (\<exists>i. de_Info e = Inr i)"
  shows "\<exists>r. addEntriesB es nc tr = Inr r"
  using assms
proof (induction es arbitrary: nc tr)
  case Nil
  then show ?case by simp
next
  case (Cons b rest)
  show ?case
  proof (cases "nc (de_Name b)")
    case None
    have "\<exists>r. addEntriesB rest (nc(de_Name b \<mapsto> length tr)) (tr @ [b]) = Inr r"
      using Cons.prems(2) by (intro Cons.IH indexed_append [OF Cons.prems(1) None]) auto
    with None show ?thesis by (simp add: Let_def)
  next
    case (Some i)
    from indexed_Some [OF Cons.prems(1) Some] have i: "i < length tr" "de_Name (tr ! i) = de_Name b"
      by simp_all
    show ?thesis
    proof (cases "de_IsDir (tr ! i) \<and> de_IsDir b")
      case False
      have "\<exists>r. addEntriesB rest nc tr = Inr r"
        using Cons.prems(2) by (intro Cons.IH Cons.prems(1)) auto
      with Some False show ?thesis by (simp add: Let_def)
    next
      case True
      have "tr ! i \<in> set tr" using i by simp
      with True Cons.prems(2) obtain ia ib where "de_Info (tr ! i) = Inr ia" "de_Info b = Inr ib"
        by auto
      then obtain y0 where g: "getMergedDirEntry (tr ! i) b = Inr y0"
        and iy: "\<exists>j. de_Info y0 = Inr j"
        by (simp add: getMergedDirEntry_Inr)
      have ny: "de_Name y0 = de_Name b" using getMergedDirEntry_name [OF g] i(2) by simp
      have "set (tr[i := y0]) \<subseteq> insert y0 (set tr)" by (rule set_update_subset_insert)
      then have "\<forall>e\<in>set (tr[i := y0]) \<union> set rest. de_IsDir e \<longrightarrow> (\<exists>i. de_Info e = Inr i)"
        using Cons.prems(2) iy by auto
      then have "\<exists>r. addEntriesB rest nc (tr[i := y0]) = Inr r"
        by (intro Cons.IH indexed_update [OF Cons.prems(1) Some ny])
      with Some True g show ?thesis by (simp add: Let_def)
    qed
  qed
qed

text \<open>
  Claim C10. The error for a duplicate name is returned exactly when two entries of the
  listing of \<open>A\<close> share a name, whatever the listing of \<open>B\<close> holds; when the names of
  \<open>A\<close> are distinct and \<^verbatim>\<open>Info\<close> succeeds on every directory entry, the merge returns a
  listing, whatever names the listing of \<open>B\<close> repeats. In a listing that the merge
  returns the names are distinct, and the entry of a name \<open>nm\<close> is fixed by the entries
  of that name in \<open>esA @ esB\<close>, the first one \<open>first\<close> followed by \<open>later\<close>. If \<open>first\<close> is
  not a directory, or no entry of \<open>later\<close> is one, the entry is \<open>first\<close> and every entry
  of \<open>later\<close> is dropped. Otherwise the non-directories of \<open>later\<close> are dropped and the
  directories are reconciled with \<open>first\<close>: the entry is a directory with the mode of
  \<open>first\<close> and the latest of the modification times. It makes no difference whether
  \<open>first\<close> comes from \<open>A\<close> or from \<open>B\<close>: merging \<open>esA\<close> with \<open>pre @ post\<close> gives what
  merging \<open>esA @ pre\<close> with \<open>post\<close> gives.
\<close>

theorem duplicate_names_only_checked_in_A:
  assumes ra: "ReadDirFile_all a = Some (Inr esA)" and rb: "ReadDirFile_all b = Some (Inr esB)"
  shows "((\<exists>n. mergeDirEntries a b = Inl (ErrorString (''Duplicate name in dir A: '' @ n)))
           \<longleftrightarrow> \<not> distinct (map de_Name esA)) \<and>
         (distinct (map de_Name esA) \<longrightarrow>
          (\<forall>e\<in>set (esA @ esB). de_IsDir e \<longrightarrow> (\<exists>i. de_Info e = Inr i)) \<longrightarrow>
          (\<exists>es. mergeDirEntries a b = Inr es)) \<and>
         (mergeDirEntries a b = Inr es \<longrightarrow>
            distinct (map de_Name es) \<and> sorted (map de_Name es) \<and>
            de_Name ` set es = de_Name ` set esA \<union> de_Name ` set esB \<and>
            (filter (\<lambda>e. de_Name e = nm) (esA @ esB) = first # later \<longrightarrow>
               (\<not> de_IsDir first \<or> filter de_IsDir later = [] \<longrightarrow> first \<in> set es) \<and>
               (de_IsDir first \<longrightarrow> filter de_IsDir later \<noteq> [] \<longrightarrow>
                  (\<exists>info infos. de_Info first = Inr info \<and>
                     map de_Info (filter de_IsDir later) = map Inr infos \<and>
                     MergedDirectory_DirEntry
                       \<lparr>name = nm, mode = fi_Mode info,
                        modTime = foldl (\<lambda>t u. if t <s u then u else t) (fi_ModTime info)
                                    (map fi_ModTime infos),
                        entries = [], readOffset = 0\<rparr> \<in> set es)))) \<and>
         (esB = pre @ post \<longrightarrow>
          distinct (map de_Name (esA @ pre)) \<longrightarrow>
          ReadDirFile_all a' = Some (Inr (esA @ pre)) \<longrightarrow>
          ReadDirFile_all b' = Some (Inr post) \<longrightarrow>
          mergeDirEntries a b = mergeDirEntries a' b')"
proof (intro conjI impI)
  show "(\<exists>n. mergeDirEntries a b = Inl (ErrorString (''Duplicate name in dir A: '' @ n)))
           \<longleftrightarrow> \<not> distinct (map de_Name esA)"
  proof (cases "addEntriesA esA Map.empty []")
    case (Inl err)
    from addEntriesA_Inl [OF Inl indexed_empty]
    have "(\<exists>n. err = ErrorString (''Duplicate name in dir A: '' @ n))" "\<not> distinct (map de_Name esA)"
      by simp_all
    then show ?thesis using Inl by (simp add: mergeDirEntries_listings [OF ra rb])
  next
    case (Inr r)
    obtain nc tr where r: "r = (nc, tr)" by (cases r)
    from addEntriesA_indexed [OF indexed_empty Inr [unfolded r]]
    have d: "distinct (map de_Name esA)" by (auto simp: indexed_def)
    have "mergeDirEntries a b \<noteq> Inl (ErrorString (''Duplicate name in dir A: '' @ n))" for n
    proof (cases "addEntriesB esB nc tr")
      case (Inl err)
      from addEntriesB_Inl [OF Inl] obtain p e where "err = Errorf p e []" by blast
      then show ?thesis using Inl Inr r by (simp add: mergeDirEntries_listings [OF ra rb])
    next
      case (Inr r')
      then show ?thesis using \<open>addEntriesA esA Map.empty [] = Inr r\<close> r
        by (simp add: mergeDirEntries_listings [OF ra rb] split: prod.splits)
    qed
    with d show ?thesis by blast
  qed
next
  assume d: "distinct (map de_Name esA)"
    and i: "\<forall>e\<in>set (esA @ esB). de_IsDir e \<longrightarrow> (\<exists>i. de_Info e = Inr i)"
  from d addEntriesA_empty [of esA] obtain nc where
    nc: "addEntriesA esA Map.empty [] = Inr (nc, esA)" "indexed nc esA" by blast
  from i have "\<forall>e\<in>set esA \<union> set esB. de_IsDir e \<longrightarrow> (\<exists>i. de_Info e = Inr i)" by simp
  from addEntriesB_total [OF nc(2) this] obtain r where "addEntriesB esB nc esA = Inr r" by blast
  then show "\<exists>es. mergeDirEntries a b = Inr es"
    by (simp add: mergeDirEntries_listings [OF ra rb] nc(1) split: prod.splits)
next
  assume mg: "mergeDirEntries a b = Inr es"
  from mergeDirEntries_Inr [OF ra rb mg] obtain ncA nc' tr' where
    ia: "indexed ncA esA" and
    b: "addEntriesB esB ncA esA = Inr (nc', tr')" and es: "es = sort_key de_Name tr'"
    by blast
  note r = addEntriesB_reconcile [OF ia b]
  have "distinct (map de_Name tr')" using r by (simp add: indexed_def)
  then show "distinct (map de_Name es)" unfolding es by (simp add: distinct_map)
  show "sorted (map de_Name es)" unfolding es by (rule sorted_sort_key)
  show "de_Name ` set es = de_Name ` set esA \<union> de_Name ` set esB" unfolding es using r by simp
next
  assume mg: "mergeDirEntries a b = Inr es"
    and f: "filter (\<lambda>e. de_Name e = nm) (esA @ esB) = first # later"
  from mergeDirEntries_Inr [OF ra rb mg] obtain ncA nc' tr' where
    ia: "indexed ncA esA" and
    b: "addEntriesB esB ncA esA = Inr (nc', tr')" and es: "es = sort_key de_Name tr'"
    by blast
  note r = addEntriesB_reconcile [OF ia b]
  have "first \<in> set (filter (\<lambda>e. de_Name e = nm) (esA @ esB))" unfolding f by simp
  then have nf: "de_Name first = nm" by auto
  have ex: "\<exists>y\<in>set tr'. reconcile first later = Inr y"
  proof (cases "nm \<in> de_Name ` set esA")
    case True
    then obtain ea where ea: "ea \<in> set esA" "de_Name ea = nm" by auto
    have "distinct (map de_Name esA)" using ia by (simp add: indexed_def)
    from filter_name_distinct [OF this ea(1)] ea(2)
    have "filter (\<lambda>e. de_Name e = nm) esA = [ea]" by simp
    with f have "first = ea" "later = filter (\<lambda>e. de_Name e = de_Name ea) esB"
      using ea(2) by simp_all
    with r ea(1) show ?thesis by blast
  next
    case False
    then have "filter (\<lambda>e. de_Name e = nm) esA = []" by (auto simp: filter_empty_conv)
    with f have "filter (\<lambda>e. de_Name e = nm) esB = first # later" by simp
    with r False show ?thesis by blast
  qed
  then obtain y where y: "y \<in> set es" "reconcile first later = Inr y" unfolding es by auto
  note c = reconcile_closed [OF y(2)]
  {
    assume "\<not> de_IsDir first \<or> filter de_IsDir later = []"
    with c have "y = first" by blast
    with y(1) show "first \<in> set es" by simp
  }
  {
    assume "de_IsDir first" "filter de_IsDir later \<noteq> []"
    with c nf y(1)
    show "\<exists>info infos. de_Info first = Inr info \<and>
                     map de_Info (filter de_IsDir later) = map Inr infos \<and>
                     MergedDirectory_DirEntry
                       \<lparr>name = nm, mode = fi_Mode info,
                        modTime = foldl (\<lambda>t u. if t <s u then u else t) (fi_ModTime info)
                                    (map fi_ModTime infos),
                        entries = [], readOffset = 0\<rparr> \<in> set es"
      by auto
  }
next
  assume e: "esB = pre @ post"
    and d: "distinct (map de_Name (esA @ pre))"
    and a': "ReadDirFile_all a' = Some (Inr (esA @ pre))"
    and b': "ReadDirFile_all b' = Some (Inr post)"
  from d have "distinct (map de_Name esA)" by simp
  with addEntriesA_empty [of esA] obtain nc where
    nc: "addEntriesA esA Map.empty [] = Inr (nc, esA)" "indexed nc esA"
    by blast
  show "mergeDirEntries a b = mergeDirEntries a' b'"
    by (simp add: mergeDirEntries_listings [OF ra rb] mergeDirEntries_listings [OF a' b'] e
        nc(1) addEntriesA_append addEntriesB_new_prefix [OF nc(2) d] split: sum.splits)
qed

text \<open>
  On a listing of \<open>B\<close> that holds the name \<^verbatim>\<open>d\<close> three times, as a directory, as a file
  and as a directory again: the file is dropped, the two directories are reconciled,
  and the first of them is not in the result as it was.
\<close>

theorem duplicate_names_only_checked_in_A_witness:
  "mergeDirEntries (directory ''p'' 0x800001ED 1 [fileEntry ''x'' 1])
       (directory ''p'' 0x800001ED 1 duplicateListing) =
     Inr [\<lparr>de_Name = ''d'', de_IsDir = True,
           de_Info = Inr \<lparr>fi_Name = ''d'', fi_Size = 0, fi_Mode = 0x800001C0, fi_ModTime = 9,
                          fi_IsDir = True\<rparr>\<rparr>,
          fileEntry ''x'' 1] \<and>
   filter (\<lambda>e. de_Name e = ''d'') ([fileEntry ''x'' 1] @ duplicateListing) =
     directoryEntry ''d'' 0x800001C0 3 # [fileEntry ''d'' 1, directoryEntry ''d'' 0x800001FF 9] \<and>
   filter de_IsDir [fileEntry ''d'' 1, directoryEntry ''d'' 0x800001FF 9] =
     [directoryEntry ''d'' 0x800001FF 9] \<and>
   MergedDirectory_DirEntry
     \<lparr>name = ''d'', mode = 0x800001C0, modTime = 9, entries = [], readOffset = 0\<rparr> \<in>
     set [\<lparr>de_Name = ''d'', de_IsDir = True,
           de_Info = Inr \<lparr>fi_Name = ''d'', fi_Size = 0, fi_Mode = 0x800001C0, fi_ModTime = 9,
                          fi_IsDir = True\<rparr>\<rparr>,
          fileEntry ''x'' 1] \<and>
   directoryEntry ''d'' 0x800001C0 3 \<notin>
     set [\<lparr>de_Name = ''d'', de_IsDir = True,
           de_Info = Inr \<lparr>fi_Name = ''d'', fi_Size = 0, fi_Mode = 0x800001C0, fi_ModTime = 9,
                          fi_IsDir = True\<rparr>\<rparr>,
          fileEntry ''x'' 1] \<and>
   mergeDirEntries (directory ''p'' 0x800001ED 1 [fileEntry ''x'' 1])
       (directory ''p'' 0x800001ED 1 duplicateListing) =
     mergeDirEntries
       (directory ''p'' 0x800001ED 1 [fileEntry ''x'' 1, directoryEntry ''d'' 0x800001C0 3])
       (directory ''p'' 0x800001ED 1 [fileEntry ''d'' 1, directoryEntry ''d'' 0x800001FF 9]) \<and>
   \<not> (\<exists>n. mergeDirEntries (directory ''p'' 0x800001ED 1 [fileEntry ''x'' 1])
       (directory ''p'' 0x800001ED 1 duplicateListing) =
     Inl (ErrorString (''Duplicate name in dir A: '' @ n)))"
proof -
  let ?a = "directory ''p'' 0x800001ED 1 [fileEntry ''x'' 1]"
  let ?b = "directory ''p'' 0x800001ED 1 duplicateListing"
  let ?a' = "directory ''p'' 0x800001ED 1 [fileEntry ''x'' 1, directoryEntry ''d'' 0x800001C0 3]"
  let ?b' = "directory ''p'' 0x800001ED 1 [fileEntry ''d'' 1, directoryEntry ''d'' 0x800001FF 9]"
  let ?es = "[\<lparr>de_Name = ''d'', de_IsDir = True,
           de_Info = Inr \<lparr>fi_Name = ''d'', fi_Size = 0, fi_Mode = 0x800001C0, fi_ModTime = 9,
                          fi_IsDir = True\<rparr>\<rparr>,
          fileEntry ''x'' 1]"
  let ?first = "directoryEntry ''d'' 0x800001C0 3"
  let ?later = "[fileEntry ''d'' 1, directoryEntry ''d'' 0x800001FF 9]"
  have ra: "ReadDirFile_all ?a = Some (Inr [fileEntry ''x'' 1])"
    by (simp add: directory_def)
  have rb: "ReadDirFile_all ?b = Some (Inr duplicateListing)"
    by (simp add: directory_def)
  have ra': "ReadDirFile_all ?a' = Some (Inr ([fileEntry ''x'' 1] @ [?first]))"
    by (simp add: directory_def)
  have rb': "ReadDirFile_all ?b' = Some (Inr ?later)"
    by (simp add: directory_def)
  have e: "duplicateListing = [?first] @ ?later" by (simp add: duplicateListing_def)
  have d: "distinct (map de_Name ([fileEntry ''x'' 1] @ [?first]))"
    by (simp add: fileEntry_def directoryEntry_def)
  have dA: "distinct (map de_Name [fileEntry ''x'' 1])"
    by simp
  have f: "filter (\<lambda>e. de_Name e = ''d'') ([fileEntry ''x'' 1] @ duplicateListing) = ?first # ?later"
    by (simp add: duplicateListing_def fileEntry_def directoryEntry_def)
  have fd: "filter de_IsDir ?later = [directoryEntry ''d'' 0x800001FF 9]"
    by (simp add: fileEntry_def directoryEntry_def)
  have mg: "mergeDirEntries ?a ?b = Inr ?es"
    by (simp add: mergeDirEntries_def directory_def fileEntry_def directoryEntry_def
        duplicateListing_def directoryInfo_def getMergedDirEntry_def MergedDirectory_DirEntry_def
        MergedDirectory_FileInfo_def Let_def)
  have dir: "de_IsDir ?first" by (simp add: directoryEntry_def)
  have ne: "filter de_IsDir ?later \<noteq> []" unfolding fd by simp
  note t = duplicate_names_only_checked_in_A [OF ra rb, where es = ?es and nm = "''d''"
      and first = ?first and later = ?later and pre = "[?first]" and post = ?later
      and a' = ?a' and b' = ?b']
  from t e d ra' rb' have 1: "mergeDirEntries ?a ?b = mergeDirEntries ?a' ?b'" by blast
  from t dA have 2: "\<not> (\<exists>n. mergeDirEntries ?a ?b = Inl (ErrorString (''Duplicate name in dir A: '' @ n)))"
    by blast
  from t mg f dir ne obtain info infos where
    i: "de_Info ?first = Inr info" "map de_Info (filter de_IsDir ?later) = map Inr infos"
      "MergedDirectory_DirEntry
         \<lparr>name = ''d'', mode = fi_Mode info,
          modTime = foldl (\<lambda>t u. if t <s u then u else t) (fi_ModTime info) (map fi_ModTime infos),
          entries = [], readOffset = 0\<rparr> \<in> set ?es"
    by blast
  from i(1) have info: "info = directoryInfo ''d'' 0x800001C0 3" by (simp add: directoryEntry_def)
  from i(2) have infos: "infos = [directoryInfo ''d'' 0x800001FF 9]"
    unfolding fd by (auto simp add: directoryEntry_def)
  have lt: "(3 :: 64 word) <s 9" by (simp add: word_sless_alt)
  from i(3) have 3: "MergedDirectory_DirEntry
     \<lparr>name = ''d'', mode = 0x800001C0, modTime = 9, entries = [], readOffset = 0\<rparr> \<in> set ?es"
    unfolding info infos by (simp add: directoryInfo_def lt)
  have 4: "?first \<notin> set ?es" by (simp add: directoryEntry_def directoryInfo_def fileEntry_def)
  from mg f fd 3 4 1 2 show ?thesis by (intro conjI)
qed

section \<open>Paths and their prefixes\<close>

lemma Split_not_Nil: "Split s \<noteq> []"
  by (induction s) (auto split: list.splits)

lemma Join_Split: "Join (Split s) = s"
proof (induction s)
  case Nil
  then show ?case by simp
next
  case (Cons c cs)
  obtain w ws where w: "Split cs = w # ws" using Split_not_Nil [of cs] by (cases "Split cs") auto
  show ?case
  proof (cases "c = CHR ''/''")
    case True
    with Cons w show ?thesis by simp
  next
    case False
    with Cons w show ?thesis by (cases ws) auto
  qed
qed

lemma Split_no_slash: "x \<in> set (Split s) \<Longrightarrow> CHR ''/'' \<notin> set x"
proof (induction s arbitrary: x)
  case Nil
  then show ?case by simp
next
  case (Cons c cs)
  obtain w ws where w: "Split cs = w # ws" using Split_not_Nil [of cs] by (cases "Split cs") auto
  from Cons w show ?case by (auto split: if_splits)
qed

lemma Split_no_slash_word: "CHR ''/'' \<notin> set x \<Longrightarrow> Split x = [x]"
  by (induction x) auto

lemma Split_append_slash:
  "CHR ''/'' \<notin> set x \<Longrightarrow> Split (x @ CHR ''/'' # s) = x # Split s"
  by (induction x) auto

lemma Split_Join:
  "xs \<noteq> [] \<Longrightarrow> \<forall>x\<in>set xs. CHR ''/'' \<notin> set x \<Longrightarrow> Split (Join xs) = xs"
proof (induction xs rule: Join.induct)
  case 1
  then show ?case by simp
next
  case (2 x)
  then show ?case by (simp add: Split_no_slash_word)
next
  case (3 x y ys)
  then show ?case by (simp add: Split_append_slash)
qed

lemma Join_append:
  "xs \<noteq> [] \<Longrightarrow> ys \<noteq> [] \<Longrightarrow> Join (xs @ ys) = Join xs @ ''/'' @ Join ys"
proof (induction xs rule: Join.induct)
  case 1
  then show ?case by simp
next
  case (2 x)
  then show ?case by (cases ys) auto
next
  case (3 x y zs)
  then show ?case by simp
qed

lemma Join_take_shorter:
  assumes "0 < n" "n < length xs"
  shows "length (Join (take n xs)) < length (Join xs)"
proof -
  have "take n xs \<noteq> []" "drop n xs \<noteq> []" using assms by auto
  from Join_append [OF this] show ?thesis by simp
qed

lemma length_prefixes: "length (prefixes p) = length (Split p)"
  by (simp add: prefixes_def)

lemma prefixes_not_Nil: "prefixes p \<noteq> []"
  using Split_not_Nil [of p] by (simp add: prefixes_def)

lemma prefixes_nth: "i < length (Split p) \<Longrightarrow> prefixes p ! i = Join (take (i + 1) (Split p))"
  by (simp add: prefixes_def)

lemma last_prefixes: "last (prefixes p) = p"
proof -
  have "length (Split p) - 1 < length (Split p)" using Split_not_Nil [of p] by simp
  then have "last (prefixes p) = Join (take (length (Split p) - 1 + 1) (Split p))"
    using prefixes_not_Nil [of p] by (simp add: last_conv_nth length_prefixes prefixes_nth)
  also have "\<dots> = p" using Split_not_Nil [of p] by (simp add: Join_Split)
  finally show ?thesis .
qed

lemma prefixes_ancestors: "prefixes p = ancestors p @ [p]"
  unfolding ancestors_def using prefixes_not_Nil [of p] last_prefixes [of p]
  by (metis append_butlast_last_id)

lemma ancestor_shorter:
  assumes "q \<in> set (ancestors p)"
  shows "length q < length p"
proof -
  from assms obtain i where i: "i < length (ancestors p)" "ancestors p ! i = q"
    by (auto simp: in_set_conv_nth)
  have l: "length (ancestors p) = length (Split p) - 1"
    by (simp add: ancestors_def length_prefixes)
  have "q = prefixes p ! i" using i by (simp add: ancestors_def nth_butlast)
  also have "\<dots> = Join (take (i + 1) (Split p))" using i l by (simp add: prefixes_nth)
  finally have "length q < length (Join (Split p))"
    using i l Join_take_shorter [of "i + 1" "Split p"] by simp
  then show ?thesis by (simp add: Join_Split)
qed

lemma ancestor_neq: "q \<in> set (ancestors p) \<Longrightarrow> q \<noteq> p"
  using ancestor_shorter by blast

lemma Split_prefix:
  assumes "i < length (Split p)"
  shows "Split (prefixes p ! i) = take (i + 1) (Split p)"
proof -
  have "take (i + 1) (Split p) \<noteq> []" using assms Split_not_Nil [of p] by simp
  moreover have "\<forall>x\<in>set (take (i + 1) (Split p)). CHR ''/'' \<notin> set x"
    using Split_no_slash by (meson in_set_takeD)
  ultimately show ?thesis using assms by (simp add: prefixes_nth Split_Join)
qed

lemma prefixes_prefix:
  assumes "i < length (Split p)"
  shows "prefixes (prefixes p ! i) = take (i + 1) (prefixes p)"
proof -
  have s: "Split (prefixes p ! i) = take (i + 1) (Split p)" using assms by (rule Split_prefix)
  have len: "length (take (i + 1) (Split p)) = i + 1" using assms by simp
  have "prefixes (prefixes p ! i) =
      map (\<lambda>j. Join (take (j + 1) (take (i + 1) (Split p)))) [0..<i + 1]"
    unfolding prefixes_def [of "prefixes p ! i"] s len ..
  also have "\<dots> = map (\<lambda>j. Join (take (j + 1) (Split p))) [0..<i + 1]"
    by (rule map_cong) (auto simp: min_def)
  also have "\<dots> = take (i + 1) (prefixes p)"
  proof -
    have "take (i + 1) [0..<length (Split p)] = [0..<i + 1]"
      using assms by (simp add: take_upt)
    then show ?thesis unfolding prefixes_def take_map by simp
  qed
  finally show ?thesis .
qed

section \<open>The check of the prefixes\<close>

lemma servesD:
  "serves opn I f \<Longrightarrow> I s \<Longrightarrow> fst (opn s p) = f p \<and> I (snd (opn s p))"
  by (simp add: serves_def)

lemma serves_SourceFS: "serves SourceFS (\<lambda>s. s = f) f"
  by (simp add: serves_def SourceFS_def)

lemma loop_serves:
  assumes "serves openA IA fA" "IA (A m)" "A m0 = fA"
    and "knownOKPrefixes m path = Some True \<longleftrightarrow> knownOKPrefixes m0 path = Some True"
  shows "fst (validatePathPrefix_loop openA path comps is m) =
           fst (validatePathPrefix_loop SourceFS path comps is m0) \<and>
         IA (A (snd (validatePathPrefix_loop openA path comps is m))) \<and>
         B (snd (validatePathPrefix_loop openA path comps is m)) = B m \<and>
         (knownOKPrefixes m0 = knownOKPrefixes m \<longrightarrow>
            knownOKPrefixes (snd (validatePathPrefix_loop openA path comps is m)) =
            knownOKPrefixes (snd (validatePathPrefix_loop SourceFS path comps is m0)))"
  using assms(2-)
proof (induction "is" arbitrary: m m0)
  case Nil
  then show ?case by simp
next
  case (Cons i rest)
  let ?pre = "Join (take (i + 1) comps)"
  obtain r a' where o: "openA (A m) ?pre = (r, a')" by (cases "openA (A m) ?pre")
  from servesD [OF assms(1) Cons.prems(1), of ?pre] o
  have r: "r = fA ?pre" and a': "IA a'" by simp_all
  show ?case
  proof (cases "knownOKPrefixes m path = Some True")
    case True
    with Cons.prems show ?thesis by simp
  next
    case nc: False
    then have nc0: "knownOKPrefixes m0 path \<noteq> Some True" using Cons.prems(3) by simp
    show ?thesis
    proof (cases "fA ?pre")
      case (Inl e)
      with nc nc0 o r a' Cons.prems show ?thesis
        by (simp add: SourceFS_def)
    next
      case (Inr f)
      show ?thesis
      proof (cases "Stat f")
        case sl: (Inl e)
        with Inr nc nc0 o r a' Cons.prems show ?thesis
          by (simp add: SourceFS_def)
      next
        case (Inr info)
        show ?thesis
        proof (cases "fi_IsDir info")
          case False
          with Inr \<open>fA ?pre = Inr f\<close> nc nc0 o r a' Cons.prems show ?thesis
            by (simp add: SourceFS_def)
        next
          case True
          let ?na = "(m :: ('a, 'b) MergedFS)\<lparr>A := a', knownOKPrefixes := (knownOKPrefixes m)(?pre \<mapsto> True)\<rparr>"
          let ?nb = "m0\<lparr>A := fA, knownOKPrefixes := (knownOKPrefixes m0)(?pre \<mapsto> True)\<rparr>"
          have s: "validatePathPrefix_loop openA path comps (i # rest) m =
              validatePathPrefix_loop openA path comps rest ?na"
            using True Inr \<open>fA ?pre = Inr f\<close> nc o r by simp
          have s0: "validatePathPrefix_loop SourceFS path comps (i # rest) m0 =
              validatePathPrefix_loop SourceFS path comps rest ?nb"
            using True Inr \<open>fA ?pre = Inr f\<close> nc0 Cons.prems(2) by (simp add: SourceFS_def)
          have "knownOKPrefixes ?na path = Some True \<longleftrightarrow> knownOKPrefixes ?nb path = Some True"
            using Cons.prems(3) by simp
          from Cons.IH [where m = ?na and ?m0.0 = ?nb, OF _ _ this] a'
          show ?thesis unfolding s s0 by (auto simp del: fun_upd_apply)
        qed
      qed
    qed
  qed
qed

lemma isDirInD:
  "isDirIn f q \<Longrightarrow> \<exists>h info. f q = Inr h \<and> Stat h = Inr info \<and> fi_IsDir info"
  by (auto simp: isDirIn_def split: sum.splits)

lemma isAbsentInD: "isAbsentIn f q \<Longrightarrow> \<exists>e. f q = Inl e \<and> isBadPathError e"
  by (auto simp: isAbsentIn_def split: sum.splits)


lemma loop_step_dir:
  assumes "isDirIn (A m0) (Join (take (i + 1) comps))" "knownOKPrefixes m0 path \<noteq> Some True"
  shows "validatePathPrefix_loop SourceFS path comps (i # rest) m0 =
     validatePathPrefix_loop SourceFS path comps rest
       (m0\<lparr>knownOKPrefixes := (knownOKPrefixes m0)(Join (take (i + 1) comps) \<mapsto> True)\<rparr>)"
proof -
  from isDirInD [OF assms(1)] obtain h info where
    "A m0 (Join (take (i + 1) comps)) = Inr h" "Stat h = Inr info" "fi_IsDir info" by blast
  then show ?thesis using assms(2) by (simp add: SourceFS_def Let_def)
qed

lemma loop_step_absent:
  assumes "isAbsentIn (A m0) (Join (take (i + 1) comps))"
  shows "fst (validatePathPrefix_loop SourceFS path comps (i # rest) m0) = None"
proof -
  from isAbsentInD [OF assms(1)] obtain e where
    "A m0 (Join (take (i + 1) comps)) = Inl e" "isBadPathError e" by blast
  then show ?thesis by (simp add: SourceFS_def Let_def)
qed

lemma loop_None:
  assumes "\<forall>i\<in>set is1. isDirIn (A m0) (Join (take (i + 1) comps))"
    and "is2 = [] \<or> isAbsentIn (A m0) (Join (take (hd is2 + 1) comps))"
  shows "fst (validatePathPrefix_loop SourceFS path comps (is1 @ is2) m0) = None"
  using assms
proof (induction is1 arbitrary: m0)
  case Nil
  show ?case
  proof (cases is2)
    case Nil
    then show ?thesis by simp
  next
    case (Cons k r)
    with Nil.prems(2) have "isAbsentIn (A m0) (Join (take (k + 1) comps))" by simp
    from loop_step_absent [OF this] Cons show ?thesis by simp
  qed
next
  case (Cons i is1)
  show ?case
  proof (cases "knownOKPrefixes m0 path = Some True")
    case True
    then show ?thesis by simp
  next
    case False
    from Cons.prems(1) have d: "isDirIn (A m0) (Join (take (i + 1) comps))" by simp
    have "fst (validatePathPrefix_loop SourceFS path comps (is1 @ is2)
       (m0\<lparr>knownOKPrefixes := (knownOKPrefixes m0)(Join (take (i + 1) comps) \<mapsto> True)\<rparr>)) = None"
      using Cons.prems by (intro Cons.IH) simp_all
    then show ?thesis using loop_step_dir [OF d False] by simp
  qed
qed

lemma loop_skip_dirs:
  assumes "\<forall>i\<in>set is1. isDirIn (A m0) (Join (take (i + 1) comps)) \<and> Join (take (i + 1) comps) \<noteq> path"
    and "knownOKPrefixes m0 path \<noteq> Some True"
  shows "\<exists>known. known path \<noteq> Some True \<and>
     validatePathPrefix_loop SourceFS path comps (is1 @ rest) m0 =
     validatePathPrefix_loop SourceFS path comps rest (m0\<lparr>knownOKPrefixes := known\<rparr>)"
  using assms
proof (induction is1 arbitrary: m0)
  case Nil
  then show ?case by (intro exI [of _ "knownOKPrefixes m0"]) simp
next
  case (Cons i is1)
  let ?pre = "Join (take (i + 1) comps)"
  let ?n = "m0\<lparr>knownOKPrefixes := (knownOKPrefixes m0)(?pre \<mapsto> True)\<rparr>"
  from Cons.prems(1) have d: "isDirIn (A m0) ?pre" and ne: "?pre \<noteq> path" by simp_all
  have "knownOKPrefixes ?n path \<noteq> Some True" using ne Cons.prems(2) by simp
  from Cons.IH [of ?n, OF _ this] Cons.prems(1)
  obtain known where k: "known path \<noteq> Some True"
    "validatePathPrefix_loop SourceFS path comps (is1 @ rest) ?n =
     validatePathPrefix_loop SourceFS path comps rest (?n\<lparr>knownOKPrefixes := known\<rparr>)"
    by auto
  show ?case
    using loop_step_dir [OF d Cons.prems(2)] k
    by (intro exI [of _ known]) simp
qed

lemma ancestors_nth:
  "j < length (ancestors p) \<Longrightarrow> ancestors p ! j = Join (take (j + 1) (Split p))"
  by (simp add: ancestors_def nth_butlast prefixes_nth length_prefixes)

lemma length_ancestors: "length (ancestors p) = length (Split p) - 1"
  by (simp add: ancestors_def length_prefixes)

lemma validate_None:
  assumes "prefixes path = ps1 @ ps2" "\<forall>q\<in>set ps1. isDirIn (A m0) q"
    and "ps2 = [] \<or> isAbsentIn (A m0) (hd ps2)"
  shows "fst (validatePathPrefix SourceFS m0 path) = None"
proof (cases "knownOKPrefixes m0 path = Some True")
  case True
  then show ?thesis by (simp add: validatePathPrefix_def)
next
  case False
  let ?n = "length (Split path)" and ?k = "length ps1"
  have n: "?n = ?k + length ps2"
    using assms(1) by (metis length_append length_prefixes)
  have split: "[0..<?n] = [0..<?k] @ [?k..<?n]"
    using n by (metis le_add1 upt_add_eq_append zero_le add_0)
  have d: "\<forall>i\<in>set [0..<?k]. isDirIn (A m0) (Join (take (i + 1) (Split path)))"
  proof
    fix i assume "i \<in> set [0..<?k]"
    then have i: "i < ?k" by simp
    then have "Join (take (i + 1) (Split path)) = prefixes path ! i"
      using n by (simp add: prefixes_nth)
    also have "\<dots> = ps1 ! i" using i assms(1) by (simp add: nth_append)
    finally show "isDirIn (A m0) (Join (take (i + 1) (Split path)))"
      using assms(2) i by simp
  qed
  have a: "[?k..<?n] = [] \<or> isAbsentIn (A m0) (Join (take (hd [?k..<?n] + 1) (Split path)))"
  proof (cases ps2)
    case Nil
    then show ?thesis using n by simp
  next
    case (Cons q qs)
    then have kn: "?k < ?n" using n by simp
    then have "Join (take (?k + 1) (Split path)) = prefixes path ! ?k"
      by (simp add: prefixes_nth)
    also have "\<dots> = q" using assms(1) Cons by simp
    finally have "isAbsentIn (A m0) (Join (take (?k + 1) (Split path)))"
      using assms(3) Cons by simp
    then show ?thesis using kn by (simp add: upt_conv_Cons)
  qed
  from loop_None [OF d a, of path] False show ?thesis
    unfolding validatePathPrefix_def Let_def split [symmetric] by simp
qed

lemma validate_skip_dirs:
  assumes "k < length (ancestors path)"
    and "\<forall>j<k. isDirIn (A m0) (ancestors path ! j)"
    and "knownOKPrefixes m0 path \<noteq> Some True"
  shows "\<exists>known. known path \<noteq> Some True \<and>
     validatePathPrefix SourceFS m0 path =
     validatePathPrefix_loop SourceFS path (Split path)
       (k # [k + 1..<length (Split path)]) (m0\<lparr>knownOKPrefixes := known\<rparr>)"
proof -
  let ?n = "length (Split path)"
  have kn: "k < ?n" using assms(1) by (simp add: length_ancestors)
  have split: "[0..<?n] = [0..<k] @ k # [k + 1..<?n]"
    using kn by (metis Suc_eq_plus1 less_imp_le_nat upt_add_eq_append upt_conv_Cons zero_le add_0 le_add_diff_inverse)
  have d: "\<forall>i\<in>set [0..<k]. isDirIn (A m0) (Join (take (i + 1) (Split path))) \<and>
      Join (take (i + 1) (Split path)) \<noteq> path"
  proof
    fix i assume "i \<in> set [0..<k]"
    then have i: "i < k" by simp
    then have il: "i < length (ancestors path)" using assms(1) by simp
    have e: "Join (take (i + 1) (Split path)) = ancestors path ! i"
      using il by (simp add: ancestors_nth)
    have "ancestors path ! i \<in> set (ancestors path)" using il by simp
    then have "ancestors path ! i \<noteq> path" by (rule ancestor_neq)
    then show "isDirIn (A m0) (Join (take (i + 1) (Split path))) \<and>
      Join (take (i + 1) (Split path)) \<noteq> path"
      using assms(2) i e by simp
  qed
  from loop_skip_dirs [OF d assms(3), of "k # [k + 1..<?n]"] assms(3)
  show ?thesis unfolding validatePathPrefix_def Let_def split [symmetric] by simp
qed


lemma validate_open_error:
  assumes "k < length (ancestors path)"
    and "\<forall>j<k. isDirIn (A m0) (ancestors path ! j)"
    and "knownOKPrefixes m0 path \<noteq> Some True"
    and "A m0 (ancestors path ! k) = Inl e" and "\<not> isBadPathError e"
  shows "fst (validatePathPrefix SourceFS m0 path) =
     Some (Errorf [] ErrNotExist ('': Error opening '' @ path @ '' in A: '' @ Error e))"
proof -
  from validate_skip_dirs [OF assms(1-3)] obtain known where
    k: "known path \<noteq> Some True"
    "validatePathPrefix SourceFS m0 path =
     validatePathPrefix_loop SourceFS path (Split path)
       (k # [k + 1..<length (Split path)]) (m0\<lparr>knownOKPrefixes := known\<rparr>)"
    by blast
  show ?thesis
    using k(1) assms(4,5) unfolding k(2)
    by (simp add: SourceFS_def Let_def ancestors_nth [OF assms(1)])
qed

lemma validate_stat_error:
  assumes "k < length (ancestors path)"
    and "\<forall>j<k. isDirIn (A m0) (ancestors path ! j)"
    and "knownOKPrefixes m0 path \<noteq> Some True"
    and "A m0 (ancestors path ! k) = Inr h" and "Stat h = Inl e"
  shows "fst (validatePathPrefix SourceFS m0 path) =
     Some (ErrorString (''Couldn't stat file in A: '' @ Error e))"
proof -
  from validate_skip_dirs [OF assms(1-3)] obtain known where
    k: "known path \<noteq> Some True"
    "validatePathPrefix SourceFS m0 path =
     validatePathPrefix_loop SourceFS path (Split path)
       (k # [k + 1..<length (Split path)]) (m0\<lparr>knownOKPrefixes := known\<rparr>)"
    by blast
  show ?thesis
    using k(1) assms(4,5) unfolding k(2)
    by (simp add: SourceFS_def Let_def ancestors_nth [OF assms(1)])
qed

lemma validate_serves:
  assumes "serves openA IA fA" "IA (A m)"
  shows "fst (validatePathPrefix openA m path) =
           fst (validatePathPrefix SourceFS
                  \<lparr>A = fA, B = B m, knownOKPrefixes = knownOKPrefixes m\<rparr> path) \<and>
         IA (A (snd (validatePathPrefix openA m path))) \<and>
         B (snd (validatePathPrefix openA m path)) = B m \<and>
         knownOKPrefixes (snd (validatePathPrefix openA m path)) =
           knownOKPrefixes (snd (validatePathPrefix SourceFS
                  \<lparr>A = fA, B = B m, knownOKPrefixes = knownOKPrefixes m\<rparr> path))"
proof (cases "knownOKPrefixes m path = Some True")
  case True
  then show ?thesis using assms(2) by (simp add: validatePathPrefix_def)
next
  case False
  let ?m0 = "\<lparr>A = fA, B = B m, knownOKPrefixes = knownOKPrefixes m\<rparr>"
  have "A ?m0 = fA"
    "knownOKPrefixes m path = Some True \<longleftrightarrow> knownOKPrefixes ?m0 path = Some True"
    "knownOKPrefixes ?m0 = knownOKPrefixes m"
    by simp_all
  from loop_serves [OF assms this(1-2), of "Split path" "[0..<length (Split path)]"] this(3) False
  show ?thesis by (simp add: validatePathPrefix_def Let_def)
qed

lemma cache_sound_empty: "cache_sound f Map.empty"
  by (simp add: cache_sound_def)

lemma cache_sound_update:
  "cache_sound f known \<Longrightarrow> fst (validatePathPrefix SourceFS (NewMergedFS f ()) q) = None \<Longrightarrow>
   cache_sound f (known(q \<mapsto> True))"
  by (simp add: cache_sound_def)

lemma prefix_passes:
  assumes "j < length (Split path)" "\<forall>i<j. isDirIn f (prefixes path ! i)"
    and "isDirIn f (prefixes path ! j) \<or> isAbsentIn f (prefixes path ! j)"
  shows "fst (validatePathPrefix SourceFS (NewMergedFS f ()) (prefixes path ! j)) = None"
proof -
  have jl: "j < length (prefixes path)" using assms(1) by (simp add: length_prefixes)
  have p: "prefixes (prefixes path ! j) = take j (prefixes path) @ [prefixes path ! j]"
    using prefixes_prefix [OF assms(1)] jl by (simp add: take_Suc_conv_app_nth)
  have d: "\<forall>q\<in>set (take j (prefixes path)). isDirIn f q"
    using assms(2) jl by (auto simp: in_set_conv_nth)
  show ?thesis
  proof (cases "isDirIn f (prefixes path ! j)")
    case True
    have "prefixes (prefixes path ! j) = (take j (prefixes path) @ [prefixes path ! j]) @ []"
      using p by simp
    moreover have "\<forall>q\<in>set (take j (prefixes path) @ [prefixes path ! j]). isDirIn (A (NewMergedFS f ())) q"
      using d True by (simp add: NewMergedFS_def)
    ultimately show ?thesis by (rule validate_None) simp
  next
    case False
    with assms(3) have "isAbsentIn f (prefixes path ! j)" by simp
    then have "[prefixes path ! j] = [] \<or> isAbsentIn (A (NewMergedFS f ())) (hd [prefixes path ! j])"
      by (simp add: NewMergedFS_def)
    moreover have "\<forall>q\<in>set (take j (prefixes path)). isDirIn (A (NewMergedFS f ())) q"
      using d by (simp add: NewMergedFS_def)
    ultimately show ?thesis using p by (intro validate_None)
  qed
qed

lemma path_passes:
  assumes "j < length (Split path)" "\<forall>i<j. isDirIn f (prefixes path ! i)"
    and "isAbsentIn f (prefixes path ! j)"
  shows "fst (validatePathPrefix SourceFS (NewMergedFS f ()) path) = None"
proof -
  have jl: "j < length (prefixes path)" using assms(1) by (simp add: length_prefixes)
  have p: "prefixes path = take j (prefixes path) @ drop j (prefixes path)" by simp
  have d: "\<forall>q\<in>set (take j (prefixes path)). isDirIn (A (NewMergedFS f ())) q"
    using assms(2) jl by (auto simp: in_set_conv_nth NewMergedFS_def)
  have "hd (drop j (prefixes path)) = prefixes path ! j" using jl by (simp add: hd_drop_conv_nth)
  then have a: "drop j (prefixes path) = [] \<or> isAbsentIn (A (NewMergedFS f ())) (hd (drop j (prefixes path)))"
    using assms(3) by (simp add: NewMergedFS_def)
  from p d a show ?thesis by (rule validate_None)
qed

lemma loop_sound:
  assumes "cache_sound (A m0) (knownOKPrefixes m0)" "j \<le> length (Split path)"
    and "\<forall>i<j. isDirIn (A m0) (prefixes path ! i)"
  shows "cache_sound (A m0)
     (knownOKPrefixes (snd (validatePathPrefix_loop SourceFS path (Split path)
        [j..<length (Split path)] m0)))"
  using assms
proof (induction "length (Split path) - j" arbitrary: j m0)
  case 0
  then show ?case by simp
next
  case (Suc d)
  let ?len = "length (Split path)"
  let ?pre = "Join (take (j + 1) (Split path))"
  from Suc.hyps(2) have jn: "j < ?len" by simp
  then have upt: "[j..<?len] = j # [j + 1..<?len]" by (simp add: upt_conv_Cons)
  have pre: "?pre = prefixes path ! j" using jn by (simp add: prefixes_nth)
  show ?case
  proof (cases "knownOKPrefixes m0 path = Some True")
    case True
    then show ?thesis using Suc.prems(1) unfolding upt by simp
  next
    case nc: False
    show ?thesis
    proof (cases "A m0 ?pre")
      case (Inl e)
      show ?thesis
      proof (cases "isBadPathError e")
        case True
        then have ab: "isAbsentIn (A m0) (prefixes path ! j)"
          using Inl pre by (simp add: isAbsentIn_def)
        have 1: "fst (validatePathPrefix SourceFS (NewMergedFS (A m0) ()) ?pre) = None"
          unfolding pre using jn Suc.prems(3) ab by (intro prefix_passes) simp_all
        have 2: "fst (validatePathPrefix SourceFS (NewMergedFS (A m0) ()) path) = None"
          using jn Suc.prems(3) ab by (rule path_passes)
        have "cache_sound (A m0) ((knownOKPrefixes m0)(?pre \<mapsto> True, path \<mapsto> True))"
          using Suc.prems(1) 1 2 by (intro cache_sound_update)
        then show ?thesis using Inl True nc unfolding upt by (simp add: SourceFS_def Let_def)
      next
        case False
        then show ?thesis using Inl nc Suc.prems(1) unfolding upt by (simp add: SourceFS_def Let_def)
      qed
    next
      case (Inr h)
      show ?thesis
      proof (cases "Stat h")
        case (Inl e)
        then show ?thesis using Inr nc Suc.prems(1) unfolding upt by (simp add: SourceFS_def Let_def)
      next
        case st: (Inr info)
        show ?thesis
        proof (cases "fi_IsDir info")
          case False
          then show ?thesis using st Inr nc Suc.prems(1) unfolding upt
            by (simp add: SourceFS_def Let_def)
        next
          case True
          then have dj: "isDirIn (A m0) (prefixes path ! j)"
            using st Inr pre by (simp add: isDirIn_def)
          let ?upd = "m0\<lparr>knownOKPrefixes := (knownOKPrefixes m0)(?pre \<mapsto> True)\<rparr>"
          have 1: "fst (validatePathPrefix SourceFS (NewMergedFS (A m0) ()) ?pre) = None"
            unfolding pre using jn Suc.prems(3) dj by (intro prefix_passes) simp_all
          have cs: "cache_sound (A ?upd) (knownOKPrefixes ?upd)"
            using Suc.prems(1) 1 by (simp add: cache_sound_update)
          have dl: "\<forall>i<j + 1. isDirIn (A ?upd) (prefixes path ! i)"
            using Suc.prems(3) dj by (simp add: less_Suc_eq)
          have "d = ?len - (j + 1)" using Suc.hyps(2) by simp
          from Suc.hyps(1) [OF this cs _ dl] jn
          have "cache_sound (A m0) (knownOKPrefixes
              (snd (validatePathPrefix_loop SourceFS path (Split path) [j + 1..<?len] ?upd)))"
            by simp
          then show ?thesis using True st Inr nc unfolding upt by (simp add: SourceFS_def Let_def)
        qed
      qed
    qed
  qed
qed

lemma validate_sound:
  assumes "cache_sound (A m0) (knownOKPrefixes m0)"
  shows "cache_sound (A m0) (knownOKPrefixes (snd (validatePathPrefix SourceFS m0 path)))"
proof (cases "knownOKPrefixes m0 path = Some True")
  case True
  then show ?thesis using assms by (simp add: validatePathPrefix_def)
next
  case False
  from loop_sound [OF assms, of 0 path] False show ?thesis
    by (simp add: validatePathPrefix_def Let_def)
qed

lemma validate_serves_any:
  assumes "serves openA IA fA" "IA (A m)" "A m0 = fA"
    and "knownOKPrefixes m path = Some True \<longleftrightarrow> knownOKPrefixes m0 path = Some True"
  shows "fst (validatePathPrefix openA m path) = fst (validatePathPrefix SourceFS m0 path)"
proof (cases "knownOKPrefixes m path = Some True")
  case True
  then show ?thesis using assms(4) by (simp add: validatePathPrefix_def)
next
  case False
  from loop_serves [OF assms, of "Split path" "[0..<length (Split path)]"] False assms(4)
  show ?thesis by (simp add: validatePathPrefix_def Let_def)
qed

lemma validate_fresh:
  assumes "cache_sound (A m0) (knownOKPrefixes m0)" "A m1 = A m0" "knownOKPrefixes m1 = Map.empty"
  shows "fst (validatePathPrefix SourceFS m0 p) = fst (validatePathPrefix SourceFS m1 p)"
proof (cases "knownOKPrefixes m0 p = Some True")
  case False
  show ?thesis
  proof (rule validate_serves_any)
    show "serves SourceFS (\<lambda>s. s = A m0) (A m0)" by (rule serves_SourceFS)
    show "A m0 = A m0" ..
    show "A m1 = A m0" by (rule assms(2))
    show "knownOKPrefixes m0 p = Some True \<longleftrightarrow> knownOKPrefixes m1 p = Some True"
      using False assms(3) by simp
  qed
next
  case True
  then have l: "fst (validatePathPrefix SourceFS m0 p) = None"
    by (simp add: validatePathPrefix_def)
  from True assms(1) have "fst (validatePathPrefix SourceFS (NewMergedFS (A m0) ()) p) = None"
    by (simp add: cache_sound_def)
  moreover have "fst (validatePathPrefix SourceFS (NewMergedFS (A m0) ()) p) =
      fst (validatePathPrefix SourceFS m1 p)"
  proof (rule validate_serves_any)
    show "serves SourceFS (\<lambda>s. s = A m0) (A m0)" by (rule serves_SourceFS)
    show "A (NewMergedFS (A m0) ()) = A m0" by (simp add: NewMergedFS_def)
    show "A m1 = A m0" by (rule assms(2))
    show "knownOKPrefixes (NewMergedFS (A m0) ()) p = Some True \<longleftrightarrow> knownOKPrefixes m1 p = Some True"
      using assms(3) by (simp add: NewMergedFS_def)
  qed
  ultimately show ?thesis using l by simp
qed

text \<open>The result of \<open>Open\<close> when the primary source has the path.\<close>

lemma Open_A_error:
  assumes "ValidPath P" "openA (A m) P = (Inl e, a')" "\<not> isBadPathError e"
  shows "Open openA openB m P =
    (Inl (Errorf (''Couldn't open '' @ P @ '' in FS A: '') e []), m\<lparr>A := a'\<rparr>)"
  using assms by (simp add: Open_def)

lemma Open_A_absent:
  assumes "ValidPath P" "openA (A m) P = (Inl e, a')" "isBadPathError e"
  shows "Open openA openB m P =
    (case validatePathPrefix openA (m\<lparr>A := a'\<rparr>) P of
       (Some e, m') \<Rightarrow> (Inl (PathError ''open'' P e), m')
     | (None, m') \<Rightarrow> (case openB (B m') P of (r, b') \<Rightarrow> (r, m'\<lparr>B := b'\<rparr>)))"
  using assms by (simp add: Open_def)

lemma Open_A_present:
  assumes "ValidPath P" "openA (A m) P = (Inr h, a')"
  shows "fst (Open openA openB m P) =
     (case Stat h of
        Inl e \<Rightarrow> Inl (Errorf (''Couldn't stat '' @ P @ '' in FS A: '') e [])
      | Inr fileInfo \<Rightarrow>
          if \<not> fi_IsDir fileInfo then Inr h
          else
            (case fst (openB (B m) P) of
               Inl e \<Rightarrow>
                 if isBadPathError e then Inr h
                 else Inl (Errorf (''Couldn't open '' @ P @ '' in FS B: '') e [])
             | Inr fB \<Rightarrow>
                 (case Stat fB of
                    Inl e \<Rightarrow> Inl (Errorf (''Couldn't stat '' @ P @ '' in FS B: '') e [])
                  | Inr fileInfo \<Rightarrow>
                      if \<not> fi_IsDir fileInfo then Inr h else newMergedDirectory h fB P)))"
    and "knownOKPrefixes (snd (Open openA openB m P)) = knownOKPrefixes m"
    and "A (snd (Open openA openB m P)) = a'"
    and "B (snd (Open openA openB m P)) = B m \<or>
         B (snd (Open openA openB m P)) = snd (openB (B m) P)"
  using assms by (auto simp add: Open_def split: sum.splits prod.splits)

section \<open>A node serves the merged view\<close>

lemma node_ok_fresh: "IA a \<Longrightarrow> IB b \<Longrightarrow> node_ok IA IB fA (NewMergedFS a b)"
  by (simp add: node_ok_def NewMergedFS_def cache_sound_empty)

text \<open>
  Opening a path that the primary source does not hold: the result is decided by the
  check of the prefixes against the content of \<open>A\<close> and the current map.
\<close>

lemma Open_absent_general:
  assumes sA: "serves openA IA fA" and ok: "IA (A m)"
    and v: "ValidPath P" and ab: "isAbsentIn fA P"
  shows "fst (Open openA openB m P) =
     (case fst (validatePathPrefix SourceFS
                  \<lparr>A = fA, B = B m, knownOKPrefixes = knownOKPrefixes m\<rparr> P) of
        Some e \<Rightarrow> Inl (PathError ''open'' P e)
      | None \<Rightarrow> fst (openB (B m) P))"
    and "IA (A (snd (Open openA openB m P)))"
    and "B (snd (Open openA openB m P)) =
     (case fst (validatePathPrefix SourceFS
                  \<lparr>A = fA, B = B m, knownOKPrefixes = knownOKPrefixes m\<rparr> P) of
        Some e \<Rightarrow> B m
      | None \<Rightarrow> snd (openB (B m) P))"
    and "knownOKPrefixes (snd (Open openA openB m P)) =
     knownOKPrefixes (snd (validatePathPrefix SourceFS
                  \<lparr>A = fA, B = B m, knownOKPrefixes = knownOKPrefixes m\<rparr> P))"
proof -
  obtain rA a' where oA: "openA (A m) P = (rA, a')" by (cases "openA (A m) P")
  from servesD [OF sA ok, of P] oA have rA: "rA = fA P" and a': "IA a'" by simp_all
  from isAbsentInD [OF ab] rA obtain e where e: "rA = Inl e" "isBadPathError e" by auto
  let ?m1 = "m\<lparr>A := a'\<rparr>"
  let ?mp = "\<lparr>A = fA, B = B m, knownOKPrefixes = knownOKPrefixes m\<rparr>"
  have o: "Open openA openB m P =
    (case validatePathPrefix openA ?m1 P of
       (Some e, m') \<Rightarrow> (Inl (PathError ''open'' P e), m')
     | (None, m') \<Rightarrow> (case openB (B m') P of (r, b') \<Rightarrow> (r, m'\<lparr>B := b'\<rparr>)))"
    using Open_A_absent [where openA = openA and m = m, OF v oA [unfolded e(1)] e(2)] .
  have "IA (A ?m1)" using a' by simp
  from validate_serves [OF sA this, of P]
  have vs: "fst (validatePathPrefix openA ?m1 P) = fst (validatePathPrefix SourceFS ?mp P)"
    "IA (A (snd (validatePathPrefix openA ?m1 P)))"
    "B (snd (validatePathPrefix openA ?m1 P)) = B m"
    "knownOKPrefixes (snd (validatePathPrefix openA ?m1 P)) =
       knownOKPrefixes (snd (validatePathPrefix SourceFS ?mp P))"
    by simp_all
  obtain r m' where vm: "validatePathPrefix openA ?m1 P = (r, m')"
    by (cases "validatePathPrefix openA ?m1 P")
  with vs have r: "r = fst (validatePathPrefix SourceFS ?mp P)"
    and m': "IA (A m')" "B m' = B m"
      "knownOKPrefixes m' = knownOKPrefixes (snd (validatePathPrefix SourceFS ?mp P))"
    by simp_all
  show "fst (Open openA openB m P) =
     (case fst (validatePathPrefix SourceFS ?mp P) of
        Some e \<Rightarrow> Inl (PathError ''open'' P e)
      | None \<Rightarrow> fst (openB (B m) P))"
    unfolding o vm r [symmetric] using m'(2) by (simp split: option.splits prod.splits)
  show "IA (A (snd (Open openA openB m P)))"
    unfolding o vm using m'(1) by (simp split: option.splits prod.splits)
  show "B (snd (Open openA openB m P)) =
     (case fst (validatePathPrefix SourceFS ?mp P) of
        Some e \<Rightarrow> B m
      | None \<Rightarrow> snd (openB (B m) P))"
    unfolding o vm r [symmetric] using m'(2) by (simp split: option.splits prod.splits)
  show "knownOKPrefixes (snd (Open openA openB m P)) =
     knownOKPrefixes (snd (validatePathPrefix SourceFS ?mp P))"
    unfolding o vm using m'(3) by (simp split: option.splits prod.splits)
qed

text \<open>With a sound map, the check is the one of a node just built.\<close>

lemma Open_absent_result:
  assumes sA: "serves openA IA fA" and ok: "IA (A m)" "cache_sound fA (knownOKPrefixes m)"
    and v: "ValidPath P" and ab: "isAbsentIn fA P"
  shows "fst (Open openA openB m P) =
     (case fst (validatePathPrefix SourceFS (NewMergedFS fA ()) P) of
        Some e \<Rightarrow> Inl (PathError ''open'' P e)
      | None \<Rightarrow> fst (openB (B m) P))"
    and "IA (A (snd (Open openA openB m P)))"
    and "cache_sound fA (knownOKPrefixes (snd (Open openA openB m P)))"
    and "B (snd (Open openA openB m P)) =
     (case fst (validatePathPrefix SourceFS (NewMergedFS fA ()) P) of
        Some e \<Rightarrow> B m
      | None \<Rightarrow> snd (openB (B m) P))"
proof -
  let ?mp = "\<lparr>A = fA, B = B m, knownOKPrefixes = knownOKPrefixes m\<rparr>"
  note g = Open_absent_general [OF sA ok(1) v ab, of openB]
  have cs: "cache_sound (A ?mp) (knownOKPrefixes ?mp)" using ok(2) by simp
  have f: "fst (validatePathPrefix SourceFS ?mp P) =
      fst (validatePathPrefix SourceFS (NewMergedFS fA ()) P)"
    using cs by (rule validate_fresh) (simp_all add: NewMergedFS_def)
  show "fst (Open openA openB m P) =
     (case fst (validatePathPrefix SourceFS (NewMergedFS fA ()) P) of
        Some e \<Rightarrow> Inl (PathError ''open'' P e)
      | None \<Rightarrow> fst (openB (B m) P))"
    using g(1) unfolding f .
  show "IA (A (snd (Open openA openB m P)))" by (rule g(2))
  show "cache_sound fA (knownOKPrefixes (snd (Open openA openB m P)))"
    unfolding g(4) using validate_sound [OF cs, of P] by simp
  show "B (snd (Open openA openB m P)) =
     (case fst (validatePathPrefix SourceFS (NewMergedFS fA ()) P) of
        Some e \<Rightarrow> B m
      | None \<Rightarrow> snd (openB (B m) P))"
    using g(3) unfolding f .
qed

lemma Open_serves_point:
  assumes sA: "serves openA IA fA" and sB: "serves openB IB fB" and ok: "node_ok IA IB fA m"
  shows "fst (Open openA openB m P) = fresh_view fA fB P \<and> node_ok IA IB fA (snd (Open openA openB m P))"
proof -
  let ?m0 = "NewMergedFS fA fB"
  from ok have IA: "IA (A m)" and IB: "IB (B m)" and cs: "cache_sound fA (knownOKPrefixes m)"
    by (simp_all add: node_ok_def)
  obtain rA a' where oA: "openA (A m) P = (rA, a')" by (cases "openA (A m) P")
  from servesD [OF sA IA, of P] oA have rA: "rA = fA P" and a': "IA a'" by simp_all
  from servesD [OF sB IB, of P] have rB: "fst (openB (B m) P) = fB P" and b': "IB (snd (openB (B m) P))"
    by simp_all
  have oA0: "SourceFS (A ?m0) P = (fA P, fA)" by (simp add: SourceFS_def NewMergedFS_def)
  have rB0: "fst (SourceFS (B ?m0) P) = fB P" by (simp add: SourceFS_def NewMergedFS_def)
  show ?thesis
  proof (cases "ValidPath P")
    case False
    then show ?thesis using ok by (simp add: Open_def fresh_view_def)
  next
    case v: True
    show ?thesis
    proof (cases "fA P")
      case (Inr h)
      note l = Open_A_present [where openA = openA and openB = openB and m = m,
          OF v oA [unfolded rA Inr]]
      note r = Open_A_present [where openA = SourceFS and openB = SourceFS and m = ?m0,
          OF v oA0 [unfolded Inr]]
      have "fst (Open openA openB m P) = fresh_view fA fB P"
        unfolding fresh_view_def l(1) r(1) rB rB0 ..
      moreover have "IB (B (snd (Open openA openB m P)))"
        using l(4) IB b' by auto
      ultimately show ?thesis using l(2,3) a' cs by (simp add: node_ok_def)
    next
      case (Inl e)
      show ?thesis
      proof (cases "isBadPathError e")
        case False
        from Open_A_error [where openA = openA and openB = openB and m = m, OF v oA [unfolded rA Inl] False]
          Open_A_error [where openA = SourceFS and openB = SourceFS and m = ?m0, OF v oA0 [unfolded Inl] False]
          a' IB cs
        show ?thesis unfolding fresh_view_def node_ok_def by simp
      next
        case True
        then have ab: "isAbsentIn fA P" using Inl by (simp add: isAbsentIn_def)
        note l = Open_absent_result [OF sA IA cs v ab, of openB]
        have "serves SourceFS (\<lambda>s. s = fA) fA" by (rule serves_SourceFS)
        moreover have "A ?m0 = fA" by (simp add: NewMergedFS_def)
        moreover have "cache_sound fA (knownOKPrefixes ?m0)"
          by (simp add: NewMergedFS_def cache_sound_empty)
        ultimately have r: "fst (Open SourceFS SourceFS ?m0 P) =
          (case fst (validatePathPrefix SourceFS (NewMergedFS fA ()) P) of
             Some e \<Rightarrow> Inl (PathError ''open'' P e)
           | None \<Rightarrow> fst (SourceFS (B ?m0) P))"
          using v ab by (rule Open_absent_result(1))
        have "fst (Open openA openB m P) = fresh_view fA fB P"
          unfolding fresh_view_def l(1) r rB rB0 ..
        moreover have "IB (B (snd (Open openA openB m P)))"
          unfolding l(4) using IB b' by (simp split: option.splits)
        ultimately show ?thesis using l(2,3) by (simp add: node_ok_def)
      qed
    qed
  qed
qed

theorem Open_serves:
  assumes "serves openA IA fA" and "serves openB IB fB"
  shows "serves (Open openA openB) (node_ok IA IB fA) (fresh_view fA fB)"
  unfolding serves_def using Open_serves_point [OF assms] by blast

lemma Opens_serves:
  assumes "serves opn I f" "I s"
  shows "fst (Opens opn s ps) = map f ps \<and> I (snd (Opens opn s ps))"
  using assms(2)
proof (induction ps arbitrary: s)
  case Nil
  then show ?case by simp
next
  case (Cons p ps)
  from servesD [OF assms(1) Cons.prems, of p]
  have 1: "fst (opn s p) = f p" and 2: "I (snd (opn s p))" by simp_all
  from Cons.IH [OF 2] 1 show ?case by (auto split: prod.splits)
qed

text \<open>Nothing removes a mark from the map of prefixes, and a marked path is not checked again.\<close>

lemma loop_keeps_marks:
  "knownOKPrefixes m q = Some True \<Longrightarrow>
   knownOKPrefixes (snd (validatePathPrefix_loop openA path comps is m)) q = Some True"
proof (induction "is" arbitrary: m)
  case Nil
  then show ?case by simp
next
  case (Cons i rest)
  let ?pre = "Join (take (i + 1) comps)"
  obtain r a' where o: "openA (A m) ?pre = (r, a')" by (cases "openA (A m) ?pre")
  show ?case
  proof (cases "knownOKPrefixes m path = Some True")
    case True
    with Cons.prems show ?thesis by simp
  next
    case nc: False
    show ?thesis
    proof (cases r)
      case (Inl e)
      with nc o Cons.prems show ?thesis by simp
    next
      case (Inr f)
      show ?thesis
      proof (cases "Stat f")
        case sl: (Inl e)
        with Inr nc o Cons.prems show ?thesis by simp
      next
        case (Inr info)
        show ?thesis
        proof (cases "fi_IsDir info")
          case False
          with Inr \<open>r = Inr f\<close> nc o Cons.prems show ?thesis by simp
        next
          case True
          let ?na = "(m :: ('a, 'b) MergedFS)\<lparr>A := a', knownOKPrefixes := (knownOKPrefixes m)(?pre \<mapsto> True)\<rparr>"
          have s: "validatePathPrefix_loop openA path comps (i # rest) m =
              validatePathPrefix_loop openA path comps rest ?na"
            using True Inr \<open>r = Inr f\<close> nc o by simp
          have "knownOKPrefixes ?na q = Some True" using Cons.prems by simp
          from Cons.IH [OF this] show ?thesis unfolding s .
        qed
      qed
    qed
  qed
qed

lemma validate_keeps_marks:
  "knownOKPrefixes m q = Some True \<Longrightarrow>
   knownOKPrefixes (snd (validatePathPrefix openA m path)) q = Some True"
  by (simp add: validatePathPrefix_def Let_def loop_keeps_marks)

lemma Open_keeps_marks:
  assumes "knownOKPrefixes m q = Some True"
  shows "knownOKPrefixes (snd (Open openA openB m path)) q = Some True"
proof -
  have v: "knownOKPrefixes (snd (validatePathPrefix openA (m\<lparr>A := a'\<rparr>) path)) q = Some True" for a'
    using assms by (intro validate_keeps_marks) simp
  show ?thesis
  proof (cases "ValidPath path")
    case False
    with assms show ?thesis by (simp add: Open_def)
  next
    case True
    obtain r a' where o: "openA (A m) path = (r, a')" by (cases "openA (A m) path")
    show ?thesis
    proof (cases r)
      case (Inr f)
      with True o assms show ?thesis
        by (simp add: Open_def split: sum.splits prod.splits)
    next
      case (Inl e)
      show ?thesis
      proof (cases "isBadPathError e")
        case False
        with Inl True o assms show ?thesis by (simp add: Open_def)
      next
        case bad: True
        obtain ve m' where vp: "validatePathPrefix openA (m\<lparr>A := a'\<rparr>) path = (ve, m')"
          by (cases "validatePathPrefix openA (m\<lparr>A := a'\<rparr>) path")
        with v [of a'] have "knownOKPrefixes m' q = Some True" by simp
        with Inl True o bad vp show ?thesis
          by (simp add: Open_def split: option.splits prod.splits)
      qed
    qed
  qed
qed

lemma Open_marked:
  assumes "ValidPath P" "knownOKPrefixes m P = Some True"
    and "openA (A m) P = (Inl e, a')" "isBadPathError e"
  shows "Open openA openB m P =
    (fst (openB (B m) P), m\<lparr>A := a', B := snd (openB (B m) P)\<rparr>)"
  using assms by (simp add: Open_def validatePathPrefix_def split: prod.splits)

section \<open>Paths that the primary source does not hold\<close>

lemma takeWhile_split_dirs:
  assumes "\<forall>q\<in>set ps. isDirIn f q \<or> isAbsentIn f q"
  shows "\<exists>ps1 ps2. ps = ps1 @ ps2 \<and> (\<forall>q\<in>set ps1. isDirIn f q) \<and>
    (ps2 = [] \<or> isAbsentIn f (hd ps2))"
proof (intro exI conjI)
  show "ps = takeWhile (isDirIn f) ps @ dropWhile (isDirIn f) ps" by simp
  show "\<forall>q\<in>set (takeWhile (isDirIn f) ps). isDirIn f q" by (metis set_takeWhileD)
  show "dropWhile (isDirIn f) ps = [] \<or> isAbsentIn f (hd (dropWhile (isDirIn f) ps))"
  proof (cases "dropWhile (isDirIn f) ps")
    case Nil
    then show ?thesis by simp
  next
    case (Cons q qs)
    then have "\<not> isDirIn f q" by (metis hd_dropWhile list.distinct(1) list.sel(1))
    moreover have "q \<in> set ps" by (metis Cons list.set_intros(1) set_dropWhileD)
    ultimately show ?thesis using assms Cons by auto
  qed
qed

text \<open>
  Claim C5. Let the primary source serve the content \<open>fA\<close>, let \<open>P\<close> be a valid path
  that \<open>fA\<close> does not hold, and let every proper ancestor of \<open>P\<close> be a directory of
  \<open>fA\<close> or absent from it. Then \<^verbatim>\<open>Open\<close> returns what \<^verbatim>\<open>B.Open(P)\<close> returns, handle or
  error, as it is, and \<open>B\<close> is left in the state after that one call. The map of
  prefixes may hold anything.
\<close>

theorem Open_absent_in_A:
  assumes "serves openA IA fA" and "IA (A m)"
    and "ValidPath P"
    and "isAbsentIn fA P"
    and "\<forall>q\<in>set (ancestors P). isDirIn fA q \<or> isAbsentIn fA q"
  shows "fst (Open openA openB m P) = fst (openB (B m) P) \<and>
         B (snd (Open openA openB m P)) = snd (openB (B m) P)"
proof -
  let ?mp = "\<lparr>A = fA, B = B m, knownOKPrefixes = knownOKPrefixes m\<rparr>"
  have "\<forall>q\<in>set (prefixes P). isDirIn fA q \<or> isAbsentIn fA q"
    using assms(4,5) by (simp add: prefixes_ancestors)
  from takeWhile_split_dirs [OF this] obtain ps1 ps2 where
    "prefixes P = ps1 @ ps2" "\<forall>q\<in>set ps1. isDirIn (A ?mp) q" "ps2 = [] \<or> isAbsentIn (A ?mp) (hd ps2)"
    by auto
  then have "fst (validatePathPrefix SourceFS ?mp P) = None" by (rule validate_None)
  with Open_absent_general [OF assms(1-4), of openB] show ?thesis by simp
qed

lemma ancestors_ex2: "ancestors ''b/z'' = [''b'']"
  by code_simp

lemma serves_example: "serves SourceFS (\<lambda>s. s = f) f \<and> (\<lambda>s. s = f) (A (NewMergedFS f g))"
  by (simp add: serves_SourceFS NewMergedFS_def)

theorem Open_absent_in_A_witness:
  "isAbsentIn exampleA ''b/z'' \<and> ancestors ''b/z'' = [''b''] \<and> isDirIn exampleA ''b'' \<and>
   exampleB ''b/z'' = Inr (regularFile ''z'' ''Z'') \<and>
   fst (Open SourceFS SourceFS (NewMergedFS exampleA exampleB) ''b/z'') =
     Inr (regularFile ''z'' ''Z'')"
proof -
  have s: "serves SourceFS (\<lambda>s. s = exampleA) exampleA" by (rule serves_SourceFS)
  have i: "A (NewMergedFS exampleA exampleB) = exampleA" by (simp add: NewMergedFS_def)
  have v: "ValidPath ''b/z''" by (simp add: ValidPath_def)
  have a: "isAbsentIn exampleA ''b/z''"
    by (simp add: isAbsentIn_def exampleA_def notFound_def isBadPathError_def)
  have d: "\<forall>q\<in>set (ancestors ''b/z''). isDirIn exampleA q \<or> isAbsentIn exampleA q"
    by (simp add: ancestors_ex2 isDirIn_def exampleA_def directory_def directoryInfo_def)
  from Open_absent_in_A [where openA = SourceFS and IA = "\<lambda>s. s = exampleA"
      and m = "NewMergedFS exampleA exampleB" and openB = SourceFS, OF s i v a d]
  have "fst (Open SourceFS SourceFS (NewMergedFS exampleA exampleB) ''b/z'') =
      fst (SourceFS (B (NewMergedFS exampleA exampleB)) ''b/z'')"
    by simp
  moreover have "isDirIn exampleA ''b''"
    by (simp add: isDirIn_def exampleA_def directory_def directoryInfo_def)
  ultimately show ?thesis
    using a by (simp add: ancestors_ex2 SourceFS_def NewMergedFS_def exampleB_def)
qed




text \<open>
  Claim C6, as amended. Let the primary source serve the content \<open>fA\<close>, and let the map
  of prefixes be sound for \<open>fA\<close>. Let \<open>P\<close> be a valid path that \<open>fA\<close> does not hold, and
  let opening or statting a proper ancestor of \<open>P\<close> fail with an error \<open>e\<close> that is not
  of the not-found class, the ancestors above it being directories. Then \<^verbatim>\<open>Open\<close>
  fails and \<open>B\<close> is not consulted. When it is the opening that fails, the error
  returned wraps \<^verbatim>\<open>fs.ErrNotExist\<close> and carries the text of \<open>e\<close>: it is of the
  not-found class.
\<close>

theorem Open_ancestor_error:
  assumes "serves openA IA fA" and "IA (A m)" and "cache_sound fA (knownOKPrefixes m)"
    and "ValidPath P"
    and "isAbsentIn fA P"
    and "k < length (ancestors P)"
    and "\<forall>j<k. isDirIn fA (ancestors P ! j)"
    and "fA (ancestors P ! k) = Inl e \<and> \<not> isBadPathError e \<or>
         (\<exists>h. fA (ancestors P ! k) = Inr h \<and> Stat h = Inl e)"
  shows "(\<exists>err. fst (Open openA openB m P) = Inl err \<and>
            (fA (ancestors P ! k) = Inl e \<longrightarrow>
               err = PathError ''open'' P
                 (Errorf [] ErrNotExist ('': Error opening '' @ P @ '' in A: '' @ Error e)) \<and>
               errors_Is err ErrNotExist)) \<and>
         B (snd (Open openA openB m P)) = B m"
proof -
  note r = Open_absent_result [OF assms(1-5), of openB]
  from assms(8) show ?thesis
  proof
    assume o: "fA (ancestors P ! k) = Inl e \<and> \<not> isBadPathError e"
    have "fst (validatePathPrefix SourceFS (NewMergedFS fA ()) P) =
        Some (Errorf [] ErrNotExist ('': Error opening '' @ P @ '' in A: '' @ Error e))"
      using assms(6,7) o
      by (intro validate_open_error [where k = k]) (simp_all add: NewMergedFS_def)
    with r show ?thesis by simp
  next
    assume "\<exists>h. fA (ancestors P ! k) = Inr h \<and> Stat h = Inl e"
    then obtain h where h: "fA (ancestors P ! k) = Inr h" "Stat h = Inl e" by blast
    have "fst (validatePathPrefix SourceFS (NewMergedFS fA ()) P) =
        Some (ErrorString (''Couldn't stat file in A: '' @ Error e))"
      using assms(6,7) h
      by (intro validate_stat_error [where k = k and h = h]) (simp_all add: NewMergedFS_def)
    with r h(1) show ?thesis by simp
  qed
qed

lemma ancestors_ex3: "ancestors ''e/f'' = [''e'']"
  by (simp add: ancestors_def prefixes_def upt_rec)

lemma ancestors_ex4: "ancestors ''s/f'' = [''s'']"
  by (simp add: ancestors_def prefixes_def upt_rec)

theorem Open_ancestor_error_witness:
  "(\<exists>err. fst (Open SourceFS SourceFS (NewMergedFS exampleA exampleB) ''e/f'') = Inl err \<and>
      errors_Is err ErrNotExist) \<and>
   B (snd (Open SourceFS SourceFS (NewMergedFS exampleA exampleB) ''e/f'')) = exampleB \<and>
   (\<exists>err. fst (Open SourceFS SourceFS (NewMergedFS exampleA exampleB) ''s/f'') = Inl err) \<and>
   B (snd (Open SourceFS SourceFS (NewMergedFS exampleA exampleB) ''s/f'')) = exampleB"
proof -
  have s: "serves SourceFS (\<lambda>s. s = exampleA) exampleA" by (rule serves_SourceFS)
  have i: "A (NewMergedFS exampleA exampleB) = exampleA" by (simp add: NewMergedFS_def)
  have c: "cache_sound exampleA (knownOKPrefixes (NewMergedFS exampleA exampleB))"
    by (simp add: NewMergedFS_def cache_sound_empty)
  have v1: "ValidPath ''e/f''" and v2: "ValidPath ''s/f''" by (simp_all add: ValidPath_def)
  have a1: "isAbsentIn exampleA ''e/f''" and a2: "isAbsentIn exampleA ''s/f''"
    by (simp_all add: isAbsentIn_def exampleA_def notFound_def isBadPathError_def)
  have k1: "0 < length (ancestors ''e/f'')" and k2: "0 < length (ancestors ''s/f'')"
    by (simp_all add: ancestors_ex3 ancestors_ex4)
  have d1: "\<forall>j<0. isDirIn exampleA (ancestors ''e/f'' ! j)"
    and d2: "\<forall>j<0. isDirIn exampleA (ancestors ''s/f'' ! j)" by simp_all
  have e1: "exampleA (ancestors ''e/f'' ! 0) =
        Inl (PathError ''open'' ''e'' (ErrorString ''input/output error'')) \<and>
      \<not> isBadPathError (PathError ''open'' ''e'' (ErrorString ''input/output error'')) \<or>
      (\<exists>h. exampleA (ancestors ''e/f'' ! 0) = Inr h \<and>
         Stat h = Inl (PathError ''open'' ''e'' (ErrorString ''input/output error'')))"
    by (simp add: ancestors_ex3 exampleA_def isBadPathError_def)
  have e2: "exampleA (ancestors ''s/f'' ! 0) = Inl (ErrorString ''stat failed'') \<and>
      \<not> isBadPathError (ErrorString ''stat failed'') \<or>
      (\<exists>h. exampleA (ancestors ''s/f'' ! 0) = Inr h \<and> Stat h = Inl (ErrorString ''stat failed''))"
    by (simp add: ancestors_ex4 exampleA_def)
  note t1 = Open_ancestor_error [where openA = SourceFS and IA = "\<lambda>s. s = exampleA"
      and m = "NewMergedFS exampleA exampleB" and openB = SourceFS, OF s i c v1 a1 k1 d1 e1]
  note t2 = Open_ancestor_error [where openA = SourceFS and IA = "\<lambda>s. s = exampleA"
      and m = "NewMergedFS exampleA exampleB" and openB = SourceFS, OF s i c v2 a2 k2 d2 e2]
  have b: "B (NewMergedFS exampleA exampleB) = exampleB" by (simp add: NewMergedFS_def)
  have x: "exampleA (ancestors ''e/f'' ! 0) =
        Inl (PathError ''open'' ''e'' (ErrorString ''input/output error''))"
    by (simp add: ancestors_ex3 exampleA_def)
  from t1 x have "\<exists>err. fst (Open SourceFS SourceFS (NewMergedFS exampleA exampleB) ''e/f'') = Inl err \<and>
      errors_Is err ErrNotExist" by blast
  moreover from t2 have "\<exists>err. fst (Open SourceFS SourceFS (NewMergedFS exampleA exampleB) ''s/f'') = Inl err"
    by blast
  ultimately show ?thesis using t1 t2 b by simp
qed

text \<open>
  Claim C6 as stated fails: opening \<^verbatim>\<open>e\<close> in \<open>exampleA\<close> fails with an input/output
  error, which is not of the not-found class, and yet the error that \<^verbatim>\<open>Open\<close> returns
  for \<^verbatim>\<open>e/f\<close> satisfies \<^verbatim>\<open>errors.Is(err, fs.ErrNotExist)\<close>.
\<close>

theorem Open_ancestor_error_counterexample:
  "exampleA ''e'' = Inl (PathError ''open'' ''e'' (ErrorString ''input/output error'')) \<and>
   \<not> errors_Is (PathError ''open'' ''e'' (ErrorString ''input/output error'')) ErrNotExist \<and>
   \<not> isBadPathError (PathError ''open'' ''e'' (ErrorString ''input/output error'')) \<and>
   isAbsentIn exampleA ''e/f'' \<and>
   fst (Open SourceFS SourceFS (NewMergedFS exampleA exampleB) ''e/f'') =
     Inl (PathError ''open'' ''e/f''
            (Errorf [] ErrNotExist '': Error opening e/f in A: open e: input/output error'')) \<and>
   errors_Is (PathError ''open'' ''e/f''
            (Errorf [] ErrNotExist '': Error opening e/f in A: open e: input/output error''))
     ErrNotExist"
  by (simp add: Open_def ValidPath_def validatePathPrefix_def SourceFS_def NewMergedFS_def
      exampleA_def exampleB_def notFound_def isBadPathError_def isAbsentIn_def upt_rec Let_def)

text \<open>
  Claim C8, as amended. On a node built over two sources whose contents do not change,
  every call of a sequence of \<^verbatim>\<open>Open\<close> calls returns what a node just built over the
  same contents returns for that path. On any node and whatever the sources have
  become: a path that the map of prefixes marks is still marked after any \<^verbatim>\<open>Open\<close>, and
  \<^verbatim>\<open>Open\<close> of a valid marked path that \<open>A\<close> reports with an error of the not-found class
  returns what \<open>B\<close> returns for it, without a look at the prefixes of the path in \<open>A\<close>.
\<close>

theorem Opens_as_fresh:
  assumes "serves openA IA fA" and "serves openB IB fB" and "IA a" and "IB b"
  shows "fst (Opens (Open openA openB) (NewMergedFS a b) ps) = map (fresh_view fA fB) ps \<and>
    (knownOKPrefixes m P = Some True \<longrightarrow>
       knownOKPrefixes (snd (Open openA' openB' m Q)) P = Some True) \<and>
    (ValidPath P \<longrightarrow> knownOKPrefixes m P = Some True \<longrightarrow>
     openA' (A m) P = (Inl e, a') \<longrightarrow> isBadPathError e \<longrightarrow>
       Open openA' openB' m P =
         (fst (openB' (B m) P), m\<lparr>A := a', B := snd (openB' (B m) P)\<rparr>))"
proof (intro conjI impI)
  show "fst (Opens (Open openA openB) (NewMergedFS a b) ps) = map (fresh_view fA fB) ps"
    using Opens_serves [OF Open_serves [OF assms(1,2)]
      node_ok_fresh [where IA = IA and IB = IB and a = a and b = b, OF assms(3,4)]] by simp
next
  assume "knownOKPrefixes m P = Some True"
  then show "knownOKPrefixes (snd (Open openA' openB' m Q)) P = Some True"
    by (rule Open_keeps_marks)
next
  assume "ValidPath P" "knownOKPrefixes m P = Some True"
    "openA' (A m) P = (Inl e, a')" "isBadPathError e"
  then show "Open openA' openB' m P =
         (fst (openB' (B m) P), m\<lparr>A := a', B := snd (openB' (B m) P)\<rparr>)"
    by (rule Open_marked)
qed

theorem Opens_as_fresh_witness:
  "fst (Opens (Open SourceFS SourceFS) (NewMergedFS exampleA exampleB) [''b/z'', ''a/y'', ''b/z'']) =
     [Inr (regularFile ''z'' ''Z''),
      Inl (PathError ''open'' ''a/y'' (Errorf [] ErrNotExist '': a is a file in A'')),
      Inr (regularFile ''z'' ''Z'')] \<and>
   knownOKPrefixes ((snd (Open SourceFS SourceFS (NewMergedFS exampleA exampleB) ''b/z''))
      \<lparr>A := exampleA_changed\<rparr>) ''b/z'' = Some True \<and>
   knownOKPrefixes (snd (Open SourceFS SourceFS
      ((snd (Open SourceFS SourceFS (NewMergedFS exampleA exampleB) ''b/z''))
         \<lparr>A := exampleA_changed\<rparr>) ''a'')) ''b/z'' = Some True \<and>
   exampleA_changed ''b/z'' = Inl (PathError ''open'' ''b/z'' ErrNotExist) \<and>
   fst (Open SourceFS SourceFS
      ((snd (Open SourceFS SourceFS (NewMergedFS exampleA exampleB) ''b/z''))
         \<lparr>A := exampleA_changed\<rparr>) ''b/z'') = Inr (regularFile ''z'' ''Z'')"
proof -
  let ?m = "(snd (Open SourceFS SourceFS (NewMergedFS exampleA exampleB) ''b/z''))
      \<lparr>A := exampleA_changed\<rparr>"
  have sa: "serves SourceFS (\<lambda>s. s = exampleA) exampleA" by (rule serves_SourceFS)
  have sb: "serves SourceFS (\<lambda>s. s = exampleB) exampleB" by (rule serves_SourceFS)
  have 1: "fresh_view exampleA exampleB ''b/z'' = Inr (regularFile ''z'' ''Z'')"
    by (simp add: fresh_view_def Open_def ValidPath_def validatePathPrefix_def SourceFS_def
        NewMergedFS_def exampleA_def exampleB_def notFound_def isBadPathError_def upt_rec Let_def
        directory_def directoryInfo_def)
  have 2: "fresh_view exampleA exampleB ''a/y'' =
      Inl (PathError ''open'' ''a/y'' (Errorf [] ErrNotExist '': a is a file in A''))"
    by (simp add: fresh_view_def Open_def ValidPath_def validatePathPrefix_def SourceFS_def
        NewMergedFS_def exampleA_def exampleB_def notFound_def isBadPathError_def upt_rec Let_def
        regularFile_def)
  have v: "ValidPath ''b/z''" by (simp add: ValidPath_def)
  have k: "knownOKPrefixes ?m ''b/z'' = Some True"
    by (simp add: Open_def ValidPath_def validatePathPrefix_def SourceFS_def
        NewMergedFS_def exampleA_def exampleB_def notFound_def isBadPathError_def upt_rec Let_def
        directory_def directoryInfo_def)
  have am: "A ?m = exampleA_changed" by simp
  have bm: "B ?m = exampleB"
    by (simp add: Open_def ValidPath_def validatePathPrefix_def SourceFS_def
        NewMergedFS_def exampleA_def exampleB_def notFound_def isBadPathError_def upt_rec Let_def
        directory_def directoryInfo_def)
  have c: "exampleA_changed ''b/z'' = Inl (PathError ''open'' ''b/z'' ErrNotExist)"
    by (simp add: exampleA_changed_def notFound_def)
  have o: "SourceFS (A ?m) ''b/z'' = (Inl (PathError ''open'' ''b/z'' ErrNotExist), exampleA_changed)"
    unfolding am by (simp add: SourceFS_def c)
  have bad: "isBadPathError (PathError ''open'' ''b/z'' ErrNotExist)"
    by (simp add: isBadPathError_def)
  note t = Opens_as_fresh [where IA = "\<lambda>s. s = exampleA" and IB = "\<lambda>s. s = exampleB"
      and openA' = SourceFS and openB' = SourceFS and m = ?m and P = "''b/z''" and Q = "''a''"
      and ps = "[''b/z'', ''a/y'', ''b/z'']"
      and e = "PathError ''open'' ''b/z'' ErrNotExist" and a' = exampleA_changed,
      OF sa sb refl refl]
  from t have r1: "fst (Opens (Open SourceFS SourceFS) (NewMergedFS exampleA exampleB)
       [''b/z'', ''a/y'', ''b/z'']) =
     [Inr (regularFile ''z'' ''Z''),
      Inl (PathError ''open'' ''a/y'' (Errorf [] ErrNotExist '': a is a file in A'')),
      Inr (regularFile ''z'' ''Z'')]"
    by (simp only: list.map 1 2)
  from t k have r2: "knownOKPrefixes (snd (Open SourceFS SourceFS ?m ''a'')) ''b/z'' = Some True"
    by blast
  from t v k o bad have "Open SourceFS SourceFS ?m ''b/z'' =
      (fst (SourceFS (B ?m) ''b/z''), ?m\<lparr>A := exampleA_changed, B := snd (SourceFS (B ?m) ''b/z'')\<rparr>)"
    by blast
  then have "fst (Open SourceFS SourceFS ?m ''b/z'') = fst (SourceFS (B ?m) ''b/z'')"
    by (simp only: fst_conv)
  then have r3: "fst (Open SourceFS SourceFS ?m ''b/z'') = Inr (regularFile ''z'' ''Z'')"
    unfolding bm by (simp add: SourceFS_def exampleB_def)
  from r1 k r2 c r3 show ?thesis by (intro conjI)
qed

text \<open>
  Claim C8 as stated fails. After \<^verbatim>\<open>Open("b/z")\<close> has marked \<^verbatim>\<open>b/z\<close> in the map, the
  content of \<open>A\<close> changes: \<^verbatim>\<open>b\<close> becomes a regular file. The next \<^verbatim>\<open>Open("b/z")\<close> on
  the same node still returns the file of \<open>B\<close>, while a node just built over the new
  content fails with a not-found error.
\<close>

theorem stale_prefix_counterexample:
  "fst (Open SourceFS SourceFS (NewMergedFS exampleA exampleB) ''b/z'') =
     Inr (regularFile ''z'' ''Z'') \<and>
   isFileIn exampleA_changed ''b'' \<and>
   fst (Open SourceFS SourceFS
          ((snd (Open SourceFS SourceFS (NewMergedFS exampleA exampleB) ''b/z''))
             \<lparr>A := exampleA_changed\<rparr>) ''b/z'') =
     Inr (regularFile ''z'' ''Z'') \<and>
   fst (Open SourceFS SourceFS (NewMergedFS exampleA_changed exampleB) ''b/z'') =
     Inl (PathError ''open'' ''b/z'' (Errorf [] ErrNotExist '': b is a file in A''))"
  by (simp add: Open_def ValidPath_def validatePathPrefix_def SourceFS_def NewMergedFS_def
      exampleA_def exampleA_changed_def exampleB_def notFound_def isBadPathError_def isFileIn_def
      upt_rec Let_def directory_def directoryInfo_def regularFile_def)

section \<open>A listing and a direct opening agree\<close>

lemma baseName_scan_none:
  "i < length d \<Longrightarrow> \<forall>j\<le>i. d ! j \<noteq> CHR ''/'' \<Longrightarrow> baseName_scan d (int i) = - 1"
proof (induction i)
  case 0
  have "baseName_scan d (- 1) = - 1" by (subst baseName_scan.simps) simp
  with 0 show ?case by (subst baseName_scan.simps) simp
next
  case (Suc i)
  from Suc.prems have "baseName_scan d (int i) = - 1" by (intro Suc.IH) auto
  moreover have "d ! Suc i \<noteq> CHR ''/''" using Suc.prems by simp
  moreover have "int (Suc i) - 1 = int i" by simp
  ultimately show ?case by (subst baseName_scan.simps) (simp add: nat_add_distrib)
qed

lemma baseName_scan_found:
  "k \<le> i \<Longrightarrow> i < length d \<Longrightarrow> d ! k = CHR ''/'' \<Longrightarrow> \<forall>j. k < j \<and> j \<le> i \<longrightarrow> d ! j \<noteq> CHR ''/'' \<Longrightarrow>
   baseName_scan d (int i) = int k"
proof (induction i)
  case 0
  then show ?case by (subst baseName_scan.simps) simp
next
  case (Suc i)
  show ?case
  proof (cases "k = Suc i")
    case True
    with Suc.prems show ?thesis by (subst baseName_scan.simps) (simp add: nat_add_distrib)
  next
    case False
    with Suc.prems have "baseName_scan d (int i) = int k" by (intro Suc.IH) auto
    moreover have "d ! Suc i \<noteq> CHR ''/''" using Suc.prems False by simp
    moreover have "int (Suc i) - 1 = int i" by simp
    ultimately show ?thesis by (subst baseName_scan.simps) (simp add: nat_add_distrib)
  qed
qed

lemma baseName_no_slash: "CHR ''/'' \<notin> set n \<Longrightarrow> baseName n = n"
proof (cases "length n \<le> 1")
  case True
  then show ?thesis by (simp add: baseName_def)
next
  case False
  assume ns: "CHR ''/'' \<notin> set n"
  from False have l: "length n - 1 < length n" by simp
  have "\<forall>j\<le>length n - 1. n ! j \<noteq> CHR ''/''"
  proof (intro allI impI)
    fix j assume "j \<le> length n - 1"
    with False have "j < length n" by simp
    then have "n ! j \<in> set n" by simp
    with ns show "n ! j \<noteq> CHR ''/''" by metis
  qed
  from baseName_scan_none [OF l this] False show ?thesis
    by (simp add: baseName_def Let_def of_nat_diff)
qed

lemma baseName_child:
  assumes "CHR ''/'' \<notin> set n" "n \<noteq> []"
  shows "baseName (D @ ''/'' @ n) = n"
proof -
  define p where "p = D @ ''/'' @ n"
  let ?k = "length D"
  have len: "length p = ?k + 1 + length n" by (simp add: p_def)
  have k: "p ! ?k = CHR ''/''" by (simp add: p_def nth_append)
  have after: "\<forall>j. ?k < j \<and> j \<le> length p - 1 \<longrightarrow> p ! j \<noteq> CHR ''/''"
  proof (intro allI impI)
    fix j assume j: "?k < j \<and> j \<le> length p - 1"
    then have "p ! j = n ! (j - ?k - 1)" by (simp add: p_def nth_append)
    moreover have "0 < length n" using assms(2) by simp
    then have "j - ?k - 1 < length n" using j len by arith
    ultimately show "p ! j \<noteq> CHR ''/''" using assms(1) by (metis nth_mem)
  qed
  have "?k \<le> length p - 1" "length p - 1 < length p" using len by simp_all
  from baseName_scan_found [OF this k after]
  have s: "baseName_scan p (int (length p - 1)) = int ?k" .
  have n1: "\<not> int (length p) \<le> 1" using len assms(2) by (cases n) auto
  have e: "int (length p) - 1 = int (length p - 1)" using len by simp
  have "baseName p = drop (nat (int ?k + 1)) p"
    unfolding baseName_def Let_def using n1 by (simp only: e s if_False)
  also have "\<dots> = n" by (simp add: p_def nat_add_distrib)
  finally show ?thesis unfolding p_def .
qed

lemma Open_both_dirs_serves:
  assumes "serves openA IA fA" and "serves openB IB fB" and "IA (A m)" and "IB (B m)"
    and "ValidPath P"
    and "fA P = Inr hA" and "Stat hA = Inr iA" and "fi_IsDir iA"
    and "fB P = Inr hB" and "Stat hB = Inr iB" and "fi_IsDir iB"
  shows "fst (Open openA openB m P) = newMergedDirectory hA hB P"
proof -
  obtain rA a' where oA: "openA (A m) P = (rA, a')" by (cases "openA (A m) P")
  obtain rB b' where oB: "openB (B m) P = (rB, b')" by (cases "openB (B m) P")
  from servesD [OF assms(1,3), of P] oA assms(6) have rA: "rA = Inr hA" by simp
  from servesD [OF assms(2,4), of P] oB assms(9) have rB: "rB = Inr hB" by simp
  from Open_both_dirs [where openA = openA and openB = openB and m = m,
      OF assms(5) oA [unfolded rA] assms(7,8) oB [unfolded rB] assms(10,11)]
  show ?thesis by simp
qed

text \<open>
  Claim C3. Let \<open>D\<close> be a directory of both sources and \<open>P\<close> its child of name \<open>n\<close>, a
  directory of both sources as well, and let each source be consistent at \<open>P\<close>: the
  entry of name \<open>n\<close> in its listing of \<open>D\<close> is a directory and carries the metadata
  that the source reports for the opened \<open>P\<close>. Then the merged listing of \<open>D\<close> has one
  entry of name \<open>n\<close>, and its metadata (name, directory flag, mode, modification time
  and size) are those that \<^verbatim>\<open>Stat\<close> returns on the handle of \<open>P\<close> opened on the node.
\<close>

theorem listing_matches_direct_open:
  assumes "serves openA IA fA" and "serves openB IB fB"
    and "IA (A m1)" and "IB (B m1)" and "IA (A m2)" and "IB (B m2)"
    and "ValidPath D" and "ValidPath P"
    and "P = (if D = ''.'' then n else D @ ''/'' @ n)" and "n \<noteq> []" and "CHR ''/'' \<notin> set n"
    and "fA D = Inr dA" and "Stat dA = Inr iDA" and "fi_IsDir iDA"
    and "ReadDirFile_all dA = Some (Inr esA)"
    and "fB D = Inr dB" and "Stat dB = Inr iDB" and "fi_IsDir iDB"
    and "ReadDirFile_all dB = Some (Inr esB)" and "distinct (map de_Name esB)"
    and "fA P = Inr pA" and "Stat pA = Inr sA" and "fi_IsDir sA"
    and "fB P = Inr pB" and "Stat pB = Inr sB" and "fi_IsDir sB"
    and "eA \<in> set esA" and "de_Name eA = n" and "de_IsDir eA" and "de_Info eA = Inr iA"
    and "fi_Mode iA = fi_Mode sA" and "fi_ModTime iA = fi_ModTime sA"
    and "eB \<in> set esB" and "de_Name eB = n" and "de_IsDir eB" and "de_Info eB = Inr iB"
    and "fi_ModTime iB = fi_ModTime sB"
    and "fst (Open openA openB m1 D) = Inr hD"
    and "fst (Open openA openB m2 P) = Inr hP"
  shows "\<exists>dD e info. hD = MergedDir dD \<and> e \<in> set (entries dD) \<and> de_Name e = n \<and>
     (\<forall>e'\<in>set (entries dD). de_Name e' = n \<longrightarrow> e' = e) \<and>
     Stat hP = Inr info \<and> de_Info e = Inr info \<and>
     de_Name e = fi_Name info \<and> de_IsDir e = fi_IsDir info \<and> fi_Size info = 0"
proof -
  have bn: "baseName P = n"
    using assms(9) baseName_no_slash [OF assms(11)] baseName_child [OF assms(11,10), of D]
    by simp
  from Open_both_dirs_serves [OF assms(1,2,3,4,7) assms(12,13,14) assms(16,17,18)] assms(38)
  have "newMergedDirectory dA dB D = Inr hD" by simp
  from newMergedDirectory_InrD [OF this] obtain dD where
    hD: "hD = MergedDir dD" and mg: "mergeDirEntries dA dB = Inr (entries dD)"
    by blast
  note p = mergeDirEntries_props [OF assms(15,19,20) mg]
  from p(8) [rule_format, OF assms(27,33)] assms(28,34,29,35)
  obtain e where e: "getMergedDirEntry eA eB = Inr e" "e \<in> set (entries dD)"
    by auto
  from e(1) obtain ia ib where i: "de_Info eA = Inr ia" "de_Info eB = Inr ib"
      "e = \<lparr>de_Name = de_Name eA, de_IsDir = True,
           de_Info = Inr \<lparr>fi_Name = de_Name eA, fi_Size = 0, fi_Mode = fi_Mode ia,
             fi_ModTime = (if fi_ModTime ia <s fi_ModTime ib then fi_ModTime ib else fi_ModTime ia),
             fi_IsDir = True\<rparr>\<rparr>"
    unfolding getMergedDirEntry_Inr by blast
  from i(1,2) assms(30,36) have "ia = iA" "ib = iB" by simp_all
  then have ev: "e = \<lparr>de_Name = n, de_IsDir = True,
      de_Info = Inr \<lparr>fi_Name = n, fi_Size = 0, fi_Mode = fi_Mode sA,
        fi_ModTime = (if fi_ModTime sA <s fi_ModTime sB then fi_ModTime sB else fi_ModTime sA),
        fi_IsDir = True\<rparr>\<rparr>"
    using i(3) assms(28,31,32,37) by simp
  have uniq: "\<forall>e'\<in>set (entries dD). de_Name e' = n \<longrightarrow> e' = e"
  proof (intro ballI impI)
    fix e' assume e': "e' \<in> set (entries dD)" "de_Name e' = n"
    have "de_Name e = n" unfolding ev by simp
    with e'(2) have "de_Name e' = de_Name e" by simp
    moreover have "inj_on de_Name (set (entries dD))" using p(3) by (simp add: distinct_map)
    ultimately show "e' = e" using e'(1) e(2) by (simp add: inj_on_def)
  qed
  from Open_both_dirs_serves [OF assms(1,2,5,6,8) assms(21,22,23) assms(24,25,26)] assms(39)
  have "newMergedDirectory pA pB P = Inr hP" by simp
  from newMergedDirectory_InrD [OF this] obtain dP sA' sB' where
    hP: "hP = MergedDir dP" and nm: "name dP = baseName P"
    and st': "Stat pA = Inr sA'" "Stat pB = Inr sB'" and md: "mode dP = fi_Mode sA'"
      "modTime dP = (if fi_ModTime sA' <s fi_ModTime sB' then fi_ModTime sB' else fi_ModTime sA')"
    by blast
  from st' assms(22,25) have "sA' = sA" "sB' = sB" by simp_all
  with nm md bn have dP: "name dP = n" "mode dP = fi_Mode sA"
      "modTime dP = (if fi_ModTime sA <s fi_ModTime sB then fi_ModTime sB else fi_ModTime sA)"
    by simp_all
  have st: "Stat hP = Inr \<lparr>fi_Name = n, fi_Size = 0, fi_Mode = fi_Mode sA,
        fi_ModTime = (if fi_ModTime sA <s fi_ModTime sB then fi_ModTime sB else fi_ModTime sA),
        fi_IsDir = True\<rparr>"
    unfolding hP using dP by (simp add: MergedDirectory_FileInfo_def)
  have n1: "de_Name e = n" and n2: "de_IsDir e = True"
    and n3: "de_Info e = Inr \<lparr>fi_Name = n, fi_Size = 0, fi_Mode = fi_Mode sA,
        fi_ModTime = (if fi_ModTime sA <s fi_ModTime sB then fi_ModTime sB else fi_ModTime sA),
        fi_IsDir = True\<rparr>"
    unfolding ev by simp_all
  show ?thesis
  proof (intro exI conjI)
    show "hD = MergedDir dD" by (rule hD)
    show "e \<in> set (entries dD)" by (rule e(2))
    show "de_Name e = n" by (rule n1)
    show "\<forall>e'\<in>set (entries dD). de_Name e' = n \<longrightarrow> e' = e" by (rule uniq)
    show "Stat hP = Inr \<lparr>fi_Name = n, fi_Size = 0, fi_Mode = fi_Mode sA,
        fi_ModTime = (if fi_ModTime sA <s fi_ModTime sB then fi_ModTime sB else fi_ModTime sA),
        fi_IsDir = True\<rparr>" by (rule st)
    show "de_Info e = Inr \<lparr>fi_Name = n, fi_Size = 0, fi_Mode = fi_Mode sA,
        fi_ModTime = (if fi_ModTime sA <s fi_ModTime sB then fi_ModTime sB else fi_ModTime sA),
        fi_IsDir = True\<rparr>" by (rule n3)
    show "de_Name e = fi_Name \<lparr>fi_Name = n, fi_Size = 0, fi_Mode = fi_Mode sA,
        fi_ModTime = (if fi_ModTime sA <s fi_ModTime sB then fi_ModTime sB else fi_ModTime sA),
        fi_IsDir = True\<rparr>" using n1 by simp
    show "de_IsDir e = fi_IsDir \<lparr>fi_Name = n, fi_Size = 0, fi_Mode = fi_Mode sA,
        fi_ModTime = (if fi_ModTime sA <s fi_ModTime sB then fi_ModTime sB else fi_ModTime sA),
        fi_IsDir = True\<rparr>" using n2 by simp
    show "fi_Size \<lparr>fi_Name = n, fi_Size = 0, fi_Mode = fi_Mode sA,
        fi_ModTime = (if fi_ModTime sA <s fi_ModTime sB then fi_ModTime sB else fi_ModTime sA),
        fi_IsDir = True\<rparr> = 0" by simp
  qed
qed

theorem listing_matches_direct_open_witness:
  "\<exists>dD e info hP.
     fst (Open SourceFS SourceFS (NewMergedFS exampleA exampleB) ''.'') = Inr (MergedDir dD) \<and>
     fst (Open SourceFS SourceFS (NewMergedFS exampleA exampleB) ''b'') = Inr hP \<and>
     e \<in> set (entries dD) \<and> de_Name e = ''b'' \<and>
     Stat hP = Inr info \<and> de_Info e = Inr info \<and>
     de_Name e = fi_Name info \<and> de_IsDir e = fi_IsDir info \<and> fi_Size info = 0"
proof -
  let ?m = "NewMergedFS exampleA exampleB"
  let ?esA = "[fileEntry ''a'' 1, directoryEntry ''b'' 0x800001ED 7]"
  let ?esB = "[directoryEntry ''a'' 0x800001C0 3, directoryEntry ''b'' 0x800001C0 9,
                directoryEntry ''e'' 0x800001C0 4, directoryEntry ''s'' 0x800001C0 4]"
  have sa: "serves SourceFS (\<lambda>s. s = exampleA) exampleA" by (rule serves_SourceFS)
  have sb: "serves SourceFS (\<lambda>s. s = exampleB) exampleB" by (rule serves_SourceFS)
  have ia: "A ?m = exampleA" and ib: "B ?m = exampleB" by (simp_all add: NewMergedFS_def)
  have vD: "ValidPath ''.''" and vP: "ValidPath ''b''" by (simp_all add: ValidPath_def)
  have P: "''b'' = (if ''.'' = ''.'' then ''b'' else ''.'' @ ''/'' @ ''b'')" by simp
  have n1: "''b'' \<noteq> []" and n2: "CHR ''/'' \<notin> set ''b''" by simp_all
  have aD: "exampleA ''.'' = Inr (directory ''.'' 0x800001ED 5 ?esA)" by (simp add: exampleA_def)
  have aD1: "Stat (directory ''.'' 0x800001ED 5 ?esA) = Inr (directoryInfo ''.'' 0x800001ED 5)"
    by (simp add: directory_def)
  have aD2: "fi_IsDir (directoryInfo ''.'' 0x800001ED 5)" by (simp add: directoryInfo_def)
  have aD3: "ReadDirFile_all (directory ''.'' 0x800001ED 5 ?esA) = Some (Inr ?esA)"
    by (simp add: directory_def)
  have bD: "exampleB ''.'' = Inr (directory ''.'' 0x800001C0 6 ?esB)" by (simp add: exampleB_def)
  have bD1: "Stat (directory ''.'' 0x800001C0 6 ?esB) = Inr (directoryInfo ''.'' 0x800001C0 6)"
    by (simp add: directory_def)
  have bD2: "fi_IsDir (directoryInfo ''.'' 0x800001C0 6)" by (simp add: directoryInfo_def)
  have bD3: "ReadDirFile_all (directory ''.'' 0x800001C0 6 ?esB) = Some (Inr ?esB)"
    by (simp add: directory_def)
  have dist: "distinct (map de_Name ?esB)" by (simp add: directoryEntry_def)
  have aP: "exampleA ''b'' = Inr (directory ''b'' 0x800001ED 7 [fileEntry ''x'' 1])"
    by (simp add: exampleA_def)
  have aP1: "Stat (directory ''b'' 0x800001ED 7 [fileEntry ''x'' 1]) =
      Inr (directoryInfo ''b'' 0x800001ED 7)" by (simp add: directory_def)
  have aP2: "fi_IsDir (directoryInfo ''b'' 0x800001ED 7)" by (simp add: directoryInfo_def)
  have bP: "exampleB ''b'' = Inr (directory ''b'' 0x800001C0 9 [fileEntry ''z'' 1])"
    by (simp add: exampleB_def)
  have bP1: "Stat (directory ''b'' 0x800001C0 9 [fileEntry ''z'' 1]) =
      Inr (directoryInfo ''b'' 0x800001C0 9)" by (simp add: directory_def)
  have bP2: "fi_IsDir (directoryInfo ''b'' 0x800001C0 9)" by (simp add: directoryInfo_def)
  have eA: "directoryEntry ''b'' 0x800001ED 7 \<in> set ?esA" by simp
  have eA1: "de_Name (directoryEntry ''b'' 0x800001ED 7) = ''b''"
    and eA2: "de_IsDir (directoryEntry ''b'' 0x800001ED 7)"
    and eA3: "de_Info (directoryEntry ''b'' 0x800001ED 7) = Inr (directoryInfo ''b'' 0x800001ED 7)"
    by (simp_all add: directoryEntry_def)
  have eB: "directoryEntry ''b'' 0x800001C0 9 \<in> set ?esB" by simp
  have eB1: "de_Name (directoryEntry ''b'' 0x800001C0 9) = ''b''"
    and eB2: "de_IsDir (directoryEntry ''b'' 0x800001C0 9)"
    and eB3: "de_Info (directoryEntry ''b'' 0x800001C0 9) = Inr (directoryInfo ''b'' 0x800001C0 9)"
    by (simp_all add: directoryEntry_def)
  have "\<exists>h. fst (Open SourceFS SourceFS ?m ''.'') = Inr h"
    by (simp add: Open_def vD SourceFS_def NewMergedFS_def exampleA_def exampleB_def
        directory_def directoryInfo_def fileEntry_def directoryEntry_def newMergedDirectory_def
        mergeDirEntries_def getMergedDirEntry_def Let_def)
  then obtain hD where hD: "fst (Open SourceFS SourceFS ?m ''.'') = Inr hD" ..
  have "\<exists>h. fst (Open SourceFS SourceFS ?m ''b'') = Inr h"
    by (simp add: Open_def vP SourceFS_def NewMergedFS_def exampleA_def exampleB_def
        directory_def directoryInfo_def fileEntry_def directoryEntry_def newMergedDirectory_def
        mergeDirEntries_def getMergedDirEntry_def Let_def)
  then obtain hP where hP: "fst (Open SourceFS SourceFS ?m ''b'') = Inr hP" ..
  from listing_matches_direct_open [where openA = SourceFS and openB = SourceFS
      and IA = "\<lambda>s. s = exampleA" and IB = "\<lambda>s. s = exampleB" and ?m1.0 = ?m and ?m2.0 = ?m,
      OF sa sb ia ib ia ib vD vP P n1 n2 aD aD1 aD2 aD3 bD bD1 bD2 bD3 dist
        aP aP1 aP2 bP bP1 bP2 eA eA1 eA2 eA3 refl refl eB eB1 eB2 eB3 refl hD hP]
  obtain dD e info where "hD = MergedDir dD" "e \<in> set (entries dD)" "de_Name e = ''b''"
    "Stat hP = Inr info" "de_Info e = Inr info"
    "de_Name e = fi_Name info" "de_IsDir e = fi_IsDir info" "fi_Size info = 0"
    by blast
  with hD hP show ?thesis by blast
qed

section \<open>The toggle for the caching of prefixes, on unchanging sources\<close>

text \<open>
  The node of a node with the flag stays sound under every call: \<^verbatim>\<open>Open\<close> with caching
  disabled runs the \<^verbatim>\<open>Open\<close> of the code on an empty map and puts the former map back,
  and \<^verbatim>\<open>UsePathCaching\<close> keeps the map or empties it.
\<close>

lemma node_ok_clear:
  "node_ok IA IB fA m \<Longrightarrow> node_ok IA IB fA (m\<lparr>knownOKPrefixes := Map.empty\<rparr>)"
  by (simp add: node_ok_def cache_sound_empty)

lemma node_ok_restore:
  "node_ok IA IB fA m' \<Longrightarrow> cache_sound fA known \<Longrightarrow> node_ok IA IB fA (m'\<lparr>knownOKPrefixes := known\<rparr>)"
  by (simp add: node_ok_def)

lemma Open_caching_point:
  assumes sA: "serves openA IA fA" and sB: "serves openB IB fB"
    and ok: "node_ok IA IB fA (merged t)"
  shows "fst (Open_caching openA openB t P) = fresh_view fA fB P \<and>
         node_ok IA IB fA (merged (snd (Open_caching openA openB t P)))"
proof (cases "cachingEnabled t")
  case True
  from Open_serves_point [OF sA sB ok, of P] True show ?thesis
    by (simp add: Open_caching_def case_prod_beta)
next
  case False
  from ok have cs: "cache_sound fA (knownOKPrefixes (merged t))" by (simp add: node_ok_def)
  from Open_serves_point [OF sA sB node_ok_clear [OF ok], of P]
  have 1: "fst (Open openA openB ((merged t)\<lparr>knownOKPrefixes := Map.empty\<rparr>) P) = fresh_view fA fB P"
    and 2: "node_ok IA IB fA (snd (Open openA openB ((merged t)\<lparr>knownOKPrefixes := Map.empty\<rparr>) P))"
    by simp_all
  from node_ok_restore [OF 2 cs] 1 False show ?thesis
    by (simp add: Open_caching_def case_prod_beta)
qed

lemma UsePathCaching_ok:
  "node_ok IA IB fA (merged t) \<Longrightarrow> node_ok IA IB fA (merged (UsePathCaching t enabled))"
  by (simp add: UsePathCaching_def node_ok_clear)

lemma calls_fresh:
  assumes sA: "serves openA IA fA" and sB: "serves openB IB fB"
  shows "node_ok IA IB fA (merged t) \<Longrightarrow>
    fst (calls openA openB t cs) = map (fresh_view fA fB) (opened cs)"
proof (induction cs arbitrary: t)
  case Nil
  then show ?case by simp
next
  case (Cons c cs)
  show ?case
  proof (cases c)
    case (CallOpen p)
    from Open_caching_point [OF sA sB Cons.prems, of p]
    have 1: "fst (Open_caching openA openB t p) = fresh_view fA fB p"
      and 2: "node_ok IA IB fA (merged (snd (Open_caching openA openB t p)))" by simp_all
    from Cons.IH [OF 2] 1 CallOpen show ?thesis by (simp add: case_prod_beta)
  next
    case (CallUsePathCaching enabled)
    from Cons.IH [OF UsePathCaching_ok [OF Cons.prems, of enabled]] CallUsePathCaching
    show ?thesis by simp
  qed
qed

text \<open>
  Claim C7. On a node built over two sources whose contents do not change, two
  sequences of calls that open the same paths in the same order return the same
  results, however the calls of \<^verbatim>\<open>UsePathCaching\<close> are placed among them and whatever
  they set: every \<^verbatim>\<open>Open\<close> returns what a node just built returns for its path.
  \<^verbatim>\<open>UsePathCaching(false)\<close> leaves the map of known prefixes empty, and the map is still
  empty after a following \<^verbatim>\<open>UsePathCaching(true)\<close>.
\<close>

theorem path_caching_invisible:
  assumes "serves openA IA fA" and "serves openB IB fB" and "IA a" and "IB b"
    and "opened cs = opened cs'"
  shows "fst (calls openA openB (NewMergedFS_caching a b) cs) =
           fst (calls openA openB (NewMergedFS_caching a b) cs') \<and>
         fst (calls openA openB (NewMergedFS_caching a b) cs) =
           map (fresh_view fA fB) (opened cs) \<and>
         knownOKPrefixes (merged (UsePathCaching t False)) = Map.empty \<and>
         knownOKPrefixes (merged (UsePathCaching (UsePathCaching t False) True)) = Map.empty"
proof -
  have ok: "node_ok IA IB fA (merged (NewMergedFS_caching a b))"
    using node_ok_fresh [where IA = IA and IB = IB and a = a and b = b, OF assms(3,4)]
    by (simp add: NewMergedFS_caching_def)
  from calls_fresh [OF assms(1,2) ok, of cs] calls_fresh [OF assms(1,2) ok, of cs'] assms(5)
  show ?thesis
    by (simp add: UsePathCaching_def)
qed

text \<open>
  On the example sources: the sequence that disables caching after the first call and
  enables it again before the last returns what the sequence without a toggle returns;
  the first call marks \<^verbatim>\<open>b/z\<close>, and the map is empty after caching is disabled.
\<close>

theorem path_caching_invisible_witness:
  "fst (calls SourceFS SourceFS (NewMergedFS_caching exampleA exampleB)
          [CallOpen ''b/z'', CallUsePathCaching False, CallOpen ''b/z'', CallOpen ''a/y'',
           CallUsePathCaching True, CallOpen ''a/y'']) =
   fst (calls SourceFS SourceFS (NewMergedFS_caching exampleA exampleB)
          [CallOpen ''b/z'', CallOpen ''b/z'', CallOpen ''a/y'', CallOpen ''a/y'']) \<and>
   fst (calls SourceFS SourceFS (NewMergedFS_caching exampleA exampleB)
          [CallOpen ''b/z'', CallUsePathCaching False, CallOpen ''b/z'', CallOpen ''a/y'',
           CallUsePathCaching True, CallOpen ''a/y'']) =
     [Inr (regularFile ''z'' ''Z''), Inr (regularFile ''z'' ''Z''),
      Inl (PathError ''open'' ''a/y'' (Errorf [] ErrNotExist '': a is a file in A'')),
      Inl (PathError ''open'' ''a/y'' (Errorf [] ErrNotExist '': a is a file in A''))] \<and>
   knownOKPrefixes (merged (snd (Open_caching SourceFS SourceFS
        (NewMergedFS_caching exampleA exampleB) ''b/z''))) ''b/z'' = Some True \<and>
   knownOKPrefixes (merged (UsePathCaching (snd (Open_caching SourceFS SourceFS
        (NewMergedFS_caching exampleA exampleB) ''b/z'')) False)) = Map.empty"
proof -
  have sa: "serves SourceFS (\<lambda>s. s = exampleA) exampleA" by (rule serves_SourceFS)
  have sb: "serves SourceFS (\<lambda>s. s = exampleB) exampleB" by (rule serves_SourceFS)
  have 1: "fresh_view exampleA exampleB ''b/z'' = Inr (regularFile ''z'' ''Z'')"
    by (simp add: fresh_view_def Open_def ValidPath_def validatePathPrefix_def SourceFS_def
        NewMergedFS_def exampleA_def exampleB_def notFound_def isBadPathError_def upt_rec Let_def
        directory_def directoryInfo_def)
  have 2: "fresh_view exampleA exampleB ''a/y'' =
      Inl (PathError ''open'' ''a/y'' (Errorf [] ErrNotExist '': a is a file in A''))"
    by (simp add: fresh_view_def Open_def ValidPath_def validatePathPrefix_def SourceFS_def
        NewMergedFS_def exampleA_def exampleB_def notFound_def isBadPathError_def upt_rec Let_def
        regularFile_def)
  have 3: "knownOKPrefixes (merged (snd (Open_caching SourceFS SourceFS
        (NewMergedFS_caching exampleA exampleB) ''b/z''))) ''b/z'' = Some True"
    by (simp add: Open_caching_def NewMergedFS_caching_def Open_def ValidPath_def
        validatePathPrefix_def SourceFS_def
        NewMergedFS_def exampleA_def exampleB_def notFound_def isBadPathError_def upt_rec Let_def
        directory_def directoryInfo_def)
  have 4: "opened [CallOpen ''b/z'', CallUsePathCaching False, CallOpen ''b/z'', CallOpen ''a/y'',
           CallUsePathCaching True, CallOpen ''a/y''] =
      opened [CallOpen ''b/z'', CallOpen ''b/z'', CallOpen ''a/y'', CallOpen ''a/y'']"
    by simp
  note t = path_caching_invisible [where IA = "\<lambda>s. s = exampleA" and IB = "\<lambda>s. s = exampleB",
      OF sa sb refl refl 4,
      of "snd (Open_caching SourceFS SourceFS (NewMergedFS_caching exampleA exampleB) ''b/z'')"]
  from t have a: "fst (calls SourceFS SourceFS (NewMergedFS_caching exampleA exampleB)
          [CallOpen ''b/z'', CallUsePathCaching False, CallOpen ''b/z'', CallOpen ''a/y'',
           CallUsePathCaching True, CallOpen ''a/y'']) =
      fst (calls SourceFS SourceFS (NewMergedFS_caching exampleA exampleB)
          [CallOpen ''b/z'', CallOpen ''b/z'', CallOpen ''a/y'', CallOpen ''a/y''])"
    by (rule conjunct1)
  from t have "fst (calls SourceFS SourceFS (NewMergedFS_caching exampleA exampleB)
          [CallOpen ''b/z'', CallUsePathCaching False, CallOpen ''b/z'', CallOpen ''a/y'',
           CallUsePathCaching True, CallOpen ''a/y'']) =
      map (fresh_view exampleA exampleB)
        (opened [CallOpen ''b/z'', CallUsePathCaching False, CallOpen ''b/z'', CallOpen ''a/y'',
           CallUsePathCaching True, CallOpen ''a/y''])"
    by (rule conjunct2 [THEN conjunct1])
  then have b: "fst (calls SourceFS SourceFS (NewMergedFS_caching exampleA exampleB)
          [CallOpen ''b/z'', CallUsePathCaching False, CallOpen ''b/z'', CallOpen ''a/y'',
           CallUsePathCaching True, CallOpen ''a/y'']) =
     [Inr (regularFile ''z'' ''Z''), Inr (regularFile ''z'' ''Z''),
      Inl (PathError ''open'' ''a/y'' (Errorf [] ErrNotExist '': a is a file in A'')),
      Inl (PathError ''open'' ''a/y'' (Errorf [] ErrNotExist '': a is a file in A''))]"
    by (simp only: opened.simps list.map 1 2)
  from t have c: "knownOKPrefixes (merged (UsePathCaching (snd (Open_caching SourceFS SourceFS
        (NewMergedFS_caching exampleA exampleB) ''b/z'')) False)) = Map.empty"
    by (rule conjunct2 [THEN conjunct2, THEN conjunct1])
  from a b 3 c show ?thesis by (intro conjI)
qed

end
